theory Spec2Isabelle
  imports Main "HOL-Library.Word" "HOL-Library.Multiset"
begin

unbundle bit_operations_syntax

section \<open>Seating planner: the core of scripts.js\<close>

text \<open>
  JavaScript numbers that hold row and column indices, distances, weights and penalties
  are modelled as unbounded integers (\<open>int\<close>); the source computes with doubles, which
  agree with the integers as long as magnitudes stay below \<open>2 ^ 53\<close>. Strings are
  \<open>char list\<close>s. A thrown \<open>Error\<close> is a value of type \<open>error\<close> on the left of a sum.
\<close>

subsection \<open>Seat identifiers\<close>

text \<open>\<open>String(n)\<close> for an integer \<open>n\<close>: the decimal digits, with a leading minus sign.\<close>

definition digit_char :: "nat \<Rightarrow> char" where
  "digit_char n = char_of (48 + n)"

fun string_of_nat :: "nat \<Rightarrow> string" where
  "string_of_nat n =
     (if n < 10 then [digit_char n] else string_of_nat (n div 10) @ [digit_char (n mod 10)])"

declare string_of_nat.simps [simp del]

definition String_js :: "int \<Rightarrow> string" where
  "String_js i = (if i < 0 then CHR ''-'' # string_of_nat (nat (- i)) else string_of_nat (nat i))"

text \<open>\<open>s.padStart(n, ch)\<close> with a one-character filler.\<close>

definition padStart :: "nat \<Rightarrow> char \<Rightarrow> string \<Rightarrow> string" where
  "padStart n ch s = replicate (n - length s) ch @ s"

text \<open>
  \<^verbatim>\<open>function seatIdFor(r,c){ return `S${String(r).padStart(2,"0")}_${String(c).padStart(2,"0")}`; }\<close>
\<close>

definition seatIdFor :: "int \<Rightarrow> int \<Rightarrow> string" where
  "seatIdFor r c =
     ''S'' @ padStart 2 (CHR ''0'') (String_js r) @ ''_'' @ padStart 2 (CHR ''0'') (String_js c)"

record pos =
  pos_r :: int
  pos_c :: int

text \<open>The regular expression class \<open>\d\<close> of JavaScript: the ten ASCII digits.\<close>

definition is_digit :: "char \<Rightarrow> bool" where
  "is_digit ch = (48 \<le> (of_char ch :: nat) \<and> (of_char ch :: nat) \<le> 57)"

definition digit_val :: "char \<Rightarrow> int" where
  "digit_val ch = int (of_char ch) - 48"

text \<open>\<open>parseInt(s, 10)\<close> on a string of decimal digits.\<close>

definition parseInt10 :: "string \<Rightarrow> int" where
  "parseInt10 s = foldl (\<lambda>acc ch. acc * 10 + digit_val ch) 0 s"

text \<open>
  \<^verbatim>\<open>
  function seatPosById(seatId){
    const m = /^S(\d{2})_(\d{2})$/.exec(seatId);
    if(!m) return null;
    return {r: parseInt(m[1],10), c: parseInt(m[2],10)};
  }\<close>
  The pattern is anchored at both ends and has no flags, so it matches exactly the
  six-character strings \<open>S d d _ d d\<close>. \<open>None\<close> is the source's \<open>null\<close>.
\<close>

fun seatPosById :: "string \<Rightarrow> pos option" where
  "seatPosById [s0, a, b, u, c, d] =
     (if s0 = CHR ''S'' \<and> is_digit a \<and> is_digit b \<and> u = CHR ''_'' \<and> is_digit c \<and> is_digit d
      then Some \<lparr>pos_r = parseInt10 [a, b], pos_c = parseInt10 [c, d]\<rparr>
      else None)"
| "seatPosById _ = None"


subsection \<open>The room\<close>

text \<open>
  \<^verbatim>\<open>function keyRC(r,c){ return `${r},${c}`; }\<close>
  The key is the text \<open>r,c\<close>; for integers it determines the pair \<open>(r, c)\<close> and is read
  back by \<open>k.split(",").map(Number)\<close>. The model keeps the pair.
\<close>

type_synonym key = "int \<times> int"

definition keyRC :: "int \<Rightarrow> int \<Rightarrow> key" where
  "keyRC r c = (r, c)"

text \<open>
  A JavaScript \<open>Set\<close> keeps its elements in insertion order, without duplicates; a \<open>Map\<close>
  keeps its entries in insertion order, and \<open>set\<close> on a present key overwrites the value
  in place.
\<close>

definition set_add :: "'a \<Rightarrow> 'a list \<Rightarrow> 'a list" where
  "set_add k xs = (if k \<in> set xs then xs else xs @ [k])"

definition set_delete :: "'a \<Rightarrow> 'a list \<Rightarrow> 'a list" where
  "set_delete k xs = removeAll k xs"

fun map_set :: "'k \<Rightarrow> 'v \<Rightarrow> ('k \<times> 'v) list \<Rightarrow> ('k \<times> 'v) list" where
  "map_set k v [] = [(k, v)]"
| "map_set k v (e # es) = (if fst e = k then (k, v) # es else e # map_set k v es)"

definition map_delete :: "'k \<Rightarrow> ('k \<times> 'v) list \<Rightarrow> ('k \<times> 'v) list" where
  "map_delete k es = filter (\<lambda>e. fst e \<noteq> k) es"

definition map_has :: "'k \<Rightarrow> ('k \<times> 'v) list \<Rightarrow> bool" where
  "map_has k es = (k \<in> fst ` set es)"

text \<open>
  \<open>state.room\<close>: the sets \<open>blocked\<close> and \<open>teacher\<close> of keys and the map \<open>seats\<close> from key to
  seat identifier. The fields \<open>rows\<close>, \<open>cols\<close> and \<open>cell\<close> are not read by the functions
  modelled here.
\<close>

record room =
  blocked :: "key list"
  teacher :: "key list"
  seats :: "(key \<times> string) list"

definition isBlocked :: "room \<Rightarrow> int \<Rightarrow> int \<Rightarrow> bool" where
  "isBlocked rm r c = (keyRC r c \<in> set (blocked rm))"

definition isTeacher :: "room \<Rightarrow> int \<Rightarrow> int \<Rightarrow> bool" where
  "isTeacher rm r c = (keyRC r c \<in> set (teacher rm))"

definition isSeat :: "room \<Rightarrow> int \<Rightarrow> int \<Rightarrow> bool" where
  "isSeat rm r c = map_has (keyRC r c) (seats rm)"

text \<open>
  \<^verbatim>\<open>
  function ensureSeat(r,c){
    const k = keyRC(r,c);
    if(isBlocked(r,c)) state.room.blocked.delete(k);
    state.room.seats.set(k, seatIdFor(r,c));
  }
  function ensureBlocked(r,c){
    const k = keyRC(r,c);
    state.room.seats.delete(k);
    state.room.teacher.delete(k);
    state.room.blocked.add(k);
  }
  function ensureTeacher(r,c){
    const k = keyRC(r,c);
    if(isBlocked(r,c)) state.room.blocked.delete(k);
    state.room.teacher.add(k);
  }
  function ensureEmpty(r,c){
    const k = keyRC(r,c);
    state.room.seats.delete(k);
    state.room.teacher.delete(k);
    state.room.blocked.delete(k);
  }\<close>
\<close>

definition ensureSeat :: "room \<Rightarrow> int \<Rightarrow> int \<Rightarrow> room" where
  "ensureSeat rm r c =
     (let k = keyRC r c;
          rm1 = (if isBlocked rm r c then rm\<lparr>blocked := set_delete k (blocked rm)\<rparr> else rm)
      in rm1\<lparr>seats := map_set k (seatIdFor r c) (seats rm1)\<rparr>)"

definition ensureBlocked :: "room \<Rightarrow> int \<Rightarrow> int \<Rightarrow> room" where
  "ensureBlocked rm r c =
     (let k = keyRC r c;
          rm1 = rm\<lparr>seats := map_delete k (seats rm)\<rparr>;
          rm2 = rm1\<lparr>teacher := set_delete k (teacher rm1)\<rparr>
      in rm2\<lparr>blocked := set_add k (blocked rm2)\<rparr>)"

definition ensureTeacher :: "room \<Rightarrow> int \<Rightarrow> int \<Rightarrow> room" where
  "ensureTeacher rm r c =
     (let k = keyRC r c;
          rm1 = (if isBlocked rm r c then rm\<lparr>blocked := set_delete k (blocked rm)\<rparr> else rm)
      in rm1\<lparr>teacher := set_add k (teacher rm1)\<rparr>)"

definition ensureEmpty :: "room \<Rightarrow> int \<Rightarrow> int \<Rightarrow> room" where
  "ensureEmpty rm r c =
     (let k = keyRC r c;
          rm1 = rm\<lparr>seats := map_delete k (seats rm)\<rparr>;
          rm2 = rm1\<lparr>teacher := set_delete k (teacher rm1)\<rparr>
      in rm2\<lparr>blocked := set_delete k (blocked rm2)\<rparr>)"

text \<open>The room before any tile is classified.\<close>

definition empty_room :: room where
  "empty_room = \<lparr>blocked = [], teacher = [], seats = []\<rparr>"

text \<open>\<^verbatim>\<open>function allSeatIds(){ return Array.from(state.room.seats.values()); }\<close>\<close>

definition allSeatIds :: "room \<Rightarrow> string list" where
  "allSeatIds rm = map snd (seats rm)"

subsection \<open>Pupils, assignments and errors\<close>

text \<open>
  A pupil as \<open>getPupils()\<close> returns it: \<open>{id, tags, fixed}\<close>, where \<open>fixed\<close> is \<open>null\<close> or an object
  that may carry \<open>seat\<close>, \<open>r\<close> and \<open>c\<close>. \<open>None\<close> is an absent property.
\<close>

record fixedspec =
  fixed_seat :: "string option"
  fixed_r :: "int option"
  fixed_c :: "int option"

record pupil =
  pid :: string
  tags :: "string list"
  fixed :: "fixedspec option"

text \<open>
  An assignment is a JavaScript object from pupil id to seat id; the map holds its own
  properties, and a property that is absent or \<open>undefined\<close> is \<open>None\<close>. A string is truthy
  when it is not empty.
\<close>

type_synonym assignment = "string \<rightharpoonup> string"

definition truthy :: "string option \<Rightarrow> bool" where
  "truthy v = (case v of None \<Rightarrow> False | Some s \<Rightarrow> s \<noteq> [])"

text \<open>
  The objects are made by \<open>{}\<close>, by a spread \<open>{...cur}\<close> or by \<open>JSON.parse\<close>, so a read
  \<open>obj[k]\<close> of a key that is not an own property goes on to \<open>Object.prototype\<close>. These are
  the names of its properties; the value of each is a function, and that of \<open>__proto__\<close>
  is \<open>Object.prototype\<close> itself, so every one of them is truthy, and none of them is a
  string.
\<close>

definition inherited_names :: "string list" where
  "inherited_names =
     [''constructor'', ''__defineGetter__'', ''__defineSetter__'', ''hasOwnProperty'',
      ''__lookupGetter__'', ''__lookupSetter__'', ''isPrototypeOf'', ''propertyIsEnumerable'',
      ''toString'', ''valueOf'', ''__proto__'', ''toLocaleString'']"

definition inherited_key :: "string \<Rightarrow> bool" where
  "inherited_key k = (k \<in> set inherited_names)"

text \<open>
  The test \<open>if(obj[k])\<close>: the own property decides when there is one, else the inherited
  one does.
\<close>

definition obj_truthy :: "assignment \<Rightarrow> string \<Rightarrow> bool" where
  "obj_truthy obj k = (case obj k of None \<Rightarrow> inherited_key k | Some s \<Rightarrow> s \<noteq> [])"

text \<open>
  A pupil list has plain ids when no id is one of these names. A write \<open>obj[k] = v\<close> is
  the update of the map. Two things are left out, and each needs a pupil whose id is
  one of the names: the assignment \<open>obj["__proto__"] = v\<close> creates no property in
  JavaScript, and the solver's swap reads \<open>next[a]\<close> as a value, which for an id without an
  entry is the inherited function where the map has \<open>None\<close>. The statements about the seat
  of a fixed pupil and about the builder's capacity test have the condition that the ids
  concerned are plain.
\<close>

definition plain_ids :: "pupil list \<Rightarrow> bool" where
  "plain_ids pupils = list_all (\<lambda>p. \<not> inherited_key (pid p)) pupils"

datatype error =
    FixedNotSeat int int
  | FixedSeatNotInMap string
  | FixedTwice string
  | NotEnoughSeats nat nat
  | NotEnoughToRepair
  | NoPupils
  | NoSeats
  | TypeError

subsection \<open>Distance metrics and rules\<close>

text \<open>
  \<^verbatim>\<open>
  const dist = {
    manhattan: (a,b) => Math.abs(a.r-b.r) + Math.abs(a.c-b.c),
    chebyshev: (a,b) => Math.max(Math.abs(a.r-b.r), Math.abs(a.c-b.c)),
    euclidean2: (a,b) => { const dr=a.r-b.r, dc=a.c-b.c; return dr*dr + dc*dc; },
  };\<close>
\<close>

definition manhattan :: "pos \<Rightarrow> pos \<Rightarrow> int" where
  "manhattan a b = \<bar>pos_r a - pos_r b\<bar> + \<bar>pos_c a - pos_c b\<bar>"

definition chebyshev :: "pos \<Rightarrow> pos \<Rightarrow> int" where
  "chebyshev a b = max \<bar>pos_r a - pos_r b\<bar> \<bar>pos_c a - pos_c b\<bar>"

definition euclidean2 :: "pos \<Rightarrow> pos \<Rightarrow> int" where
  "euclidean2 a b = (let dr = pos_r a - pos_r b; dc = pos_c a - pos_c b in dr * dr + dc * dc)"

text \<open>
  The \<open>metric\<close> property of a rule: one of the three names, or any other non-empty string
  (\<open>OtherMetric\<close>), for which \<open>dist[metric]\<close> is not a function and the call throws a
  \<open>TypeError\<close>. An absent or empty \<open>metric\<close> is \<open>None\<close>, replaced by \<open>"manhattan"\<close>.
\<close>

datatype metric = Manhattan | Chebyshev | Euclidean2 | OtherMetric

definition metric_or_default :: "metric option \<Rightarrow> metric" where
  "metric_or_default m = (case m of None \<Rightarrow> Manhattan | Some x \<Rightarrow> x)"

fun dist :: "metric \<Rightarrow> pos \<Rightarrow> pos \<Rightarrow> error + int" where
  "dist Manhattan a b = Inr (manhattan a b)"
| "dist Chebyshev a b = Inr (chebyshev a b)"
| "dist Euclidean2 a b = Inr (euclidean2 a b)"
| "dist OtherMetric a b = Inl TypeError"

text \<open>
  A rule object as \<open>getRules()\<close> returns it. Numeric properties are integers when present;
  \<open>x|0\<close> is \<open>ToInt32\<close>, and \<open>undefined|0\<close> is 0.
\<close>

record rule =
  rtype :: string
  hard :: bool
  weight :: "int option"
  rule_a :: string
  rule_b :: string
  rule_d :: "int option"
  rule_metric :: "metric option"
  pupil_id :: string
  rule_k :: "int option"
  min_d :: "int option"
  r_min :: "int option"
  r_max :: "int option"
  allowed_seat_ids :: "string list option"
  rule_tag :: string

definition to_int32 :: "int \<Rightarrow> int" where
  "to_int32 x = sint (word_of_int x :: 32 word)"

definition or0 :: "int option \<Rightarrow> int" where
  "or0 v = (case v of None \<Rightarrow> 0 | Some x \<Rightarrow> to_int32 x)"

definition HARD_MULT :: int where
  "HARD_MULT = 1000000"

text \<open>
  \<^verbatim>\<open>
  function posOf(pid){
    const sid = assign[pid];
    if(!sid) return null;
    return seatPosById(sid);
  }\<close>
\<close>

text \<open>
  When \<open>pid\<close> has no entry and names an inherited property, \<open>sid\<close> is a function or an
  object; the pattern of \<open>seatPosById\<close> does not match its string form, so the result is
  \<open>null\<close> then as well.
\<close>

definition posOf :: "assignment \<Rightarrow> string \<Rightarrow> pos option" where
  "posOf assign p = (if \<not> truthy (assign p) then None else seatPosById (the (assign p)))"

text \<open>
  \<open>Object.fromEntries(pupils.map(p=>[p.id,p]))\<close> and \<open>Object.values\<close>: a later pupil with the
  same id replaces the earlier one in its place. (JavaScript lists keys that look like
  array indices first; the only use of the order is the sum over pairs in
  \<open>TagSeparation\<close>.)
\<close>

definition pupilsById :: "pupil list \<Rightarrow> (string \<times> pupil) list" where
  "pupilsById ps = foldl (\<lambda>obj p. map_set (pid p) p obj) [] ps"

definition object_values :: "(string \<times> 'v) list \<Rightarrow> 'v list" where
  "object_values obj = map snd obj"

text \<open>The distance shortfall of one pair in \<open>TagSeparation\<close>; \<open>continue\<close> adds nothing.\<close>

definition pair_shortfall :: "metric \<Rightarrow> int \<Rightarrow> assignment \<Rightarrow> string \<Rightarrow> string \<Rightarrow> error + int" where
  "pair_shortfall m minD assign x y =
     (case (posOf assign x, posOf assign y) of
        (Some pa, Some pb) \<Rightarrow>
          (case dist m pa pb of
             Inl e \<Rightarrow> Inl e
           | Inr d \<Rightarrow> Inr (if d < minD then minD - d else 0))
      | _ \<Rightarrow> Inr 0)"

text \<open>The inner loop \<open>j = i+1 .. length-1\<close> and the outer loop over \<open>i\<close>, adding to \<open>pen\<close>.\<close>

fun tag_inner :: "metric \<Rightarrow> int \<Rightarrow> assignment \<Rightarrow> string \<Rightarrow> string list \<Rightarrow> int \<Rightarrow> error + int" where
  "tag_inner m minD assign x [] pen = Inr pen"
| "tag_inner m minD assign x (y # ys) pen =
     (case pair_shortfall m minD assign x y of
        Inl e \<Rightarrow> Inl e
      | Inr s \<Rightarrow> tag_inner m minD assign x ys (pen + s))"

fun tag_outer :: "metric \<Rightarrow> int \<Rightarrow> assignment \<Rightarrow> string list \<Rightarrow> int \<Rightarrow> error + int" where
  "tag_outer m minD assign [] pen = Inr pen"
| "tag_outer m minD assign (x # xs) pen =
     (case tag_inner m minD assign x xs pen of
        Inl e \<Rightarrow> Inl e
      | Inr pen' \<Rightarrow> tag_outer m minD assign xs pen')"

text \<open>\<open>best = Math.min(best, dist[metric](pp, t))\<close> over the teacher tiles; \<open>None\<close> is \<open>Infinity\<close>.\<close>

fun teacher_best :: "metric \<Rightarrow> pos \<Rightarrow> pos list \<Rightarrow> int option \<Rightarrow> error + int option" where
  "teacher_best m pp [] best = Inr best"
| "teacher_best m pp (t # ts) best =
     (case dist m pp t of
        Inl e \<Rightarrow> Inl e
      | Inr d \<Rightarrow> teacher_best m pp ts (Some (case best of None \<Rightarrow> d | Some b \<Rightarrow> min b d)))"

text \<open>
  The first part of \<open>rulePenalty(rule, assign, pupilsById, teacherTiles)\<close>: the chain of
  \<open>if(type === ...)\<close> that computes the raw penalty \<open>p\<close>.
\<close>

definition rawPenalty :: "rule \<Rightarrow> assignment \<Rightarrow> (string \<times> pupil) list \<Rightarrow> pos list \<Rightarrow> error + int" where
  "rawPenalty rule assign byId teacherTiles =
    (if rtype rule = ''MinDistance'' then
       (let dNeed = or0 (rule_d rule); m = metric_or_default (rule_metric rule) in
        case (posOf assign (rule_a rule), posOf assign (rule_b rule)) of
          (Some pa, Some pb) \<Rightarrow>
            (case dist m pa pb of
               Inl e \<Rightarrow> Inl e
             | Inr d \<Rightarrow> Inr (if d \<ge> dNeed then 0 else dNeed - d))
        | _ \<Rightarrow> Inr 0)
     else if rtype rule = ''MaxDistance'' then
       (let dMax = or0 (rule_d rule); m = metric_or_default (rule_metric rule) in
        case (posOf assign (rule_a rule), posOf assign (rule_b rule)) of
          (Some pa, Some pb) \<Rightarrow>
            (case dist m pa pb of
               Inl e \<Rightarrow> Inl e
             | Inr d \<Rightarrow> Inr (if d \<le> dMax then 0 else d - dMax))
        | _ \<Rightarrow> Inr 0)
     else if rtype rule = ''NotAdjacent'' then
       (case (posOf assign (rule_a rule), posOf assign (rule_b rule)) of
          (Some pa, Some pb) \<Rightarrow> Inr (if chebyshev pa pb \<ge> 2 then 0 else 1)
        | _ \<Rightarrow> Inr 0)
     else if rtype rule = ''PreferFront'' then
       (let k = or0 (rule_k rule) in
        case posOf assign (pupil_id rule) of
          None \<Rightarrow> Inr 0
        | Some pp \<Rightarrow> Inr (if pos_r pp < k then 0 else 1))
     else if rtype rule = ''PreferAwayFromTeacher'' then
       (let minD = or0 (min_d rule); m = metric_or_default (rule_metric rule) in
        case posOf assign (pupil_id rule) of
          None \<Rightarrow> Inr 0
        | Some pp \<Rightarrow>
            if teacherTiles = [] then Inr 0
            else (case teacher_best m pp teacherTiles None of
                    Inl e \<Rightarrow> Inl e
                  | Inr None \<Rightarrow> Inr 0
                  | Inr (Some best) \<Rightarrow> Inr (if best \<ge> minD then 0 else minD - best)))
     else if rtype rule = ''MustBeInRows'' then
       (let rMin = or0 (r_min rule); rMax = or0 (r_max rule) in
        case posOf assign (pupil_id rule) of
          None \<Rightarrow> Inr 0
        | Some pp \<Rightarrow> Inr (if pos_r pp \<ge> rMin \<and> pos_r pp \<le> rMax then 0 else 1))
     else if rtype rule = ''MustBeInSeats'' then
       (let allowed = (case allowed_seat_ids rule of None \<Rightarrow> [] | Some xs \<Rightarrow> xs);
            sid = assign (pupil_id rule) in
        if \<not> obj_truthy assign (pupil_id rule) then Inr 0
        else Inr (if (case sid of None \<Rightarrow> False | Some s \<Rightarrow> s \<in> set allowed) then 0 else 1))
     else if rtype rule = ''TagSeparation'' then
       (let minD = or0 (min_d rule); m = metric_or_default (rule_metric rule);
            tagged = map pid (filter (\<lambda>p0. rule_tag rule \<in> set (tags p0) \<and> obj_truthy assign (pid p0))
                                (object_values byId))
        in tag_outer m minD assign tagged 0)
     else Inr 0)"

text \<open>
  The end of \<open>rulePenalty\<close>:
  \<^verbatim>\<open>
  const hard = !!rule.hard;
  const weight = Math.max(1, rule.weight|0);
  ...
  if(p<=0) return 0;
  return hard ? (p * HARD_MULT) : (p * weight);\<close>
\<close>

definition rulePenalty :: "rule \<Rightarrow> assignment \<Rightarrow> (string \<times> pupil) list \<Rightarrow> pos list \<Rightarrow> error + int" where
  "rulePenalty rule assign byId teacherTiles =
     (let w = max 1 (or0 (weight rule)) in
      case rawPenalty rule assign byId teacherTiles of
        Inl e \<Rightarrow> Inl e
      | Inr p \<Rightarrow> Inr (if p \<le> 0 then 0 else if hard rule then p * HARD_MULT else p * w))"

subsection \<open>Scoring\<close>

record score =
  total :: int
  hardBreaks :: nat

text \<open>
  \<^verbatim>\<open>
  function scoreAssignment(assign){
    const pupils = getPupils();
    const pupilsById = Object.fromEntries(pupils.map(p=>[p.id,p]));
    const teacherTiles = Array.from(state.room.teacher).map(k=>{
      const [r,c]=k.split(",").map(Number);
      return {r,c};
    });
    let total = 0;
    let hardBreaks = 0;
    for(const rule of getRules()){
      const pen = rulePenalty(rule, assign, pupilsById, teacherTiles);
      total += pen;
      if(pen>=HARD_MULT && rule.hard) hardBreaks += 1;
    }
    return { total, hardBreaks };
  }\<close>
\<close>

definition teacherTiles_of :: "room \<Rightarrow> pos list" where
  "teacherTiles_of rm = map (\<lambda>k. \<lparr>pos_r = fst k, pos_c = snd k\<rparr>) (teacher rm)"

fun score_loop :: "assignment \<Rightarrow> (string \<times> pupil) list \<Rightarrow> pos list \<Rightarrow> rule list \<Rightarrow> score \<Rightarrow> error + score" where
  "score_loop assign byId tt [] sc = Inr sc"
| "score_loop assign byId tt (rule # rules) sc =
     (case rulePenalty rule assign byId tt of
        Inl e \<Rightarrow> Inl e
      | Inr pen \<Rightarrow>
          score_loop assign byId tt rules
            \<lparr>total = total sc + pen,
             hardBreaks = (if pen \<ge> HARD_MULT \<and> hard rule then hardBreaks sc + 1 else hardBreaks sc)\<rparr>)"

definition scoreAssignment :: "room \<Rightarrow> pupil list \<Rightarrow> rule list \<Rightarrow> assignment \<Rightarrow> error + score" where
  "scoreAssignment rm pupils rules assign =
     score_loop assign (pupilsById pupils) (teacherTiles_of rm) rules \<lparr>total = 0, hardBreaks = 0\<rparr>"

subsection \<open>The random generator and the shuffle\<close>

text \<open>
  \<^verbatim>\<open>
  function mulberry32(a){
    return function(){
      let t = a += 0x6D2B79F5;
      t = Math.imul(t ^ (t >>> 15), t | 1);
      t ^= t + Math.imul(t ^ (t >>> 7), t | 61);
      return ((t ^ (t >>> 14)) >>> 0) / 4294967296;
    };
  }\<close>
  The closure's state \<open>a\<close> is read through 32-bit operations only, so the model keeps it as a
  32-bit word (the number \<open>a\<close> itself is exact until it passes \<open>2 ^ 53\<close>, after some millions
  of draws). Every caller passes \<open>seed >>> 0\<close>. A draw is the 32-bit numerator \<open>u\<close> of the
  fraction \<open>u / 2 ^ 32\<close> that the source returns, together with the next state.
\<close>

type_synonym rng = "32 word"

definition mulberry32 :: "int \<Rightarrow> rng" where
  "mulberry32 seed = word_of_int seed"

definition rng_next :: "rng \<Rightarrow> 32 word \<times> rng" where
  "rng_next a =
     (let a' = a + 0x6D2B79F5;
          t1 = (a' XOR drop_bit 15 a') * (a' OR 1);
          t2 = t1 XOR (t1 + (t1 XOR drop_bit 7 t1) * (t1 OR 61))
      in (t2 XOR drop_bit 14 t2, a'))"

text \<open>
  \<open>Math.floor(rng() * n)\<close>: the product \<open>u / 2 ^ 32 * n\<close> is exact in a double for every
  \<open>n\<close> below \<open>2 ^ 21\<close>.
\<close>

definition rand_index :: "32 word \<Rightarrow> nat \<Rightarrow> nat" where
  "rand_index u n = (unat u * n) div 2 ^ 32"

text \<open>
  \<^verbatim>\<open>
  function shuffleInPlace(arr, rng){
    for(let i=arr.length-1;i>0;i--){
      const j = Math.floor(rng() * (i+1));
      [arr[i],arr[j]] = [arr[j],arr[i]];
    }
  }\<close>
  The model returns the shuffled array and the generator after the draws.
\<close>

fun shuffle_from :: "nat \<Rightarrow> 'a list \<Rightarrow> rng \<Rightarrow> 'a list \<times> rng" where
  "shuffle_from 0 arr g = (arr, g)"
| "shuffle_from (Suc i) arr g =
     (let d = rng_next g; j = rand_index (fst d) (Suc i + 1)
      in shuffle_from i (arr[Suc i := arr ! j, j := arr ! Suc i]) (snd d))"

definition shuffleInPlace :: "'a list \<Rightarrow> rng \<Rightarrow> 'a list \<times> rng" where
  "shuffleInPlace arr g = shuffle_from (length arr - 1) arr g"

subsection \<open>The initial assignment\<close>

text \<open>
  \<^verbatim>\<open>
  function rcToSeatId(r,c){
    const k = keyRC(r,c);
    if(!state.room.seats.has(k)) throw new Error(`fixed r,c (${r},${c}) is not a seat`);
    return state.room.seats.get(k);
  }\<close>
\<close>

definition rcToSeatId :: "room \<Rightarrow> int \<Rightarrow> int \<Rightarrow> error + string" where
  "rcToSeatId rm r c =
     (let k = keyRC r c in
      if \<not> map_has k (seats rm) then Inl (FixedNotSeat r c)
      else Inr (the (map_of (seats rm) k)))"

text \<open>
  The loop over the pupils that places the fixed ones:
  \<^verbatim>\<open>
  for(const p of pupils){
    if(p.fixed && p.fixed.seat){
      const sid = p.fixed.seat;
      if(!seats.includes(sid)) throw new Error(`fixed seat ${sid} not in map`);
      if(used.has(sid)) throw new Error(`seat ${sid} fixed twice`);
      assign[p.id]=sid; used.add(sid);
    } else if(p.fixed && ("r" in p.fixed) && ("c" in p.fixed)){
      const sid = rcToSeatId(p.fixed.r, p.fixed.c);
      if(used.has(sid)) throw new Error(`seat ${sid} fixed twice`);
      assign[p.id]=sid; used.add(sid);
    }
  }\<close>
\<close>

fun build_fixed :: "room \<Rightarrow> pupil list \<Rightarrow> assignment \<Rightarrow> string list \<Rightarrow> error + (assignment \<times> string list)" where
  "build_fixed rm [] assign used = Inr (assign, used)"
| "build_fixed rm (p # ps) assign used =
     (case fixed p of
        None \<Rightarrow> build_fixed rm ps assign used
      | Some f \<Rightarrow>
          if truthy (fixed_seat f) then
            (let sid = the (fixed_seat f) in
             if sid \<notin> set (allSeatIds rm) then Inl (FixedSeatNotInMap sid)
             else if sid \<in> set used then Inl (FixedTwice sid)
             else build_fixed rm ps (assign(pid p \<mapsto> sid)) (set_add sid used))
          else if fixed_r f \<noteq> None \<and> fixed_c f \<noteq> None then
            (case rcToSeatId rm (the (fixed_r f)) (the (fixed_c f)) of
               Inl e \<Rightarrow> Inl e
             | Inr sid \<Rightarrow>
                 if sid \<in> set used then Inl (FixedTwice sid)
                 else build_fixed rm ps (assign(pid p \<mapsto> sid)) (set_add sid used))
          else build_fixed rm ps assign used)"

text \<open>
  \<open>for(const pid of ids) assign[pid] = free[idx++]\<close>: the ids take the seats in order; reading
  past the end of the array gives \<open>undefined\<close>.
\<close>

fun assign_seq :: "assignment \<Rightarrow> string list \<Rightarrow> string list \<Rightarrow> assignment" where
  "assign_seq assign [] ss = assign"
| "assign_seq assign (p # ps) [] = assign_seq (assign(p := None)) ps []"
| "assign_seq assign (p # ps) (s # ss) = assign_seq (assign(p \<mapsto> s)) ps ss"

text \<open>
  The comparator of \<open>free2.sort\<close>: by row, then by column, identifiers without a position
  last.
  \<^verbatim>\<open>
  (sa, sb) => {
    const a = seatPosById(sa);
    const b = seatPosById(sb);
    if(!a && !b) return 0;
    if(!a) return 1;
    if(!b) return -1;
    if(a.r !== b.r) return a.r - b.r;
    return a.c - b.c;
  }\<close>
  \<open>Array.prototype.sort\<close> is a stable sort; the model is a stable insertion sort.
\<close>

definition seat_cmp :: "string \<Rightarrow> string \<Rightarrow> int" where
  "seat_cmp sa sb =
     (case (seatPosById sa, seatPosById sb) of
        (None, None) \<Rightarrow> 0
      | (None, Some b) \<Rightarrow> 1
      | (Some a, None) \<Rightarrow> - 1
      | (Some a, Some b) \<Rightarrow> if pos_r a \<noteq> pos_r b then pos_r a - pos_r b else pos_c a - pos_c b)"

fun insert_sorted :: "('a \<Rightarrow> 'a \<Rightarrow> int) \<Rightarrow> 'a \<Rightarrow> 'a list \<Rightarrow> 'a list" where
  "insert_sorted cmp x [] = [x]"
| "insert_sorted cmp x (y # ys) = (if cmp x y \<le> 0 then x # y # ys else y # insert_sorted cmp x ys)"

definition array_sort :: "('a \<Rightarrow> 'a \<Rightarrow> int) \<Rightarrow> 'a list \<Rightarrow> 'a list" where
  "array_sort cmp xs = foldr (insert_sorted cmp) xs []"

text \<open>
  The shuffle of each run of seats of one row:
  \<^verbatim>\<open>
  let i0 = 0;
  while(i0 < free2.length){
    const p0 = seatPosById(free2[i0]);
    let i1 = i0 + 1;
    while(i1 < free2.length){
      const p1 = seatPosById(free2[i1]);
      if(!p0 || !p1 || p1.r !== p0.r) break;
      i1++;
    }
    const slice = free2.slice(i0, i1);
    shuffleInPlace(slice, rng);
    for(let k=0;k<slice.length;k++) free2[i0+k] = slice[k];
    i0 = i1;
  }\<close>
  The model works on the part of the array from \<open>i0\<close> on: the run is the first seat and the
  seats after it that are in its row, the rest is what follows the run.
\<close>

definition same_row :: "pos option \<Rightarrow> string \<Rightarrow> bool" where
  "same_row p0 s =
     (case (p0, seatPosById s) of (Some a, Some b) \<Rightarrow> pos_r b = pos_r a | _ \<Rightarrow> False)"

function row_shuffle :: "string list \<Rightarrow> rng \<Rightarrow> string list \<times> rng" where
  "row_shuffle [] g = ([], g)"
| "row_shuffle (x # xs) g =
     (let p0 = seatPosById x;
          sl = shuffleInPlace (x # takeWhile (same_row p0) xs) g;
          rest = row_shuffle (dropWhile (same_row p0) xs) (snd sl)
      in (fst sl @ fst rest, snd rest))"
  by pat_completeness auto
termination
  by (relation "measure (\<lambda>(xs, g). length xs)") (auto simp: less_Suc_eq_le length_dropWhile_le)

text \<open>
  \<open>buildInitialAssignment(seed)\<close>, with the room and the pupils of \<open>getPupils()\<close> as
  arguments. \<open>WITHIN_ROW_SHUFFLE\<close> is the constant 1. \<open>assign\<close> starts as \<open>{}\<close>, and
  \<open>remainingPupils = pupils.filter(p=>!assign[p.id])\<close> reads it through the prototype: a
  pupil whose id names an inherited property is left out like a pupil that has a seat.
\<close>

definition has_tags :: "pupil \<Rightarrow> bool" where
  "has_tags p = (tags p \<noteq> [])"

definition buildInitialAssignment :: "room \<Rightarrow> pupil list \<Rightarrow> int \<Rightarrow> error + assignment" where
  "buildInitialAssignment rm pupils seed =
     (let g = mulberry32 seed; sids = allSeatIds rm in
      case build_fixed rm pupils Map.empty [] of
        Inl e \<Rightarrow> Inl e
      | Inr (assign, used) \<Rightarrow>
          (let free = filter (\<lambda>s. s \<notin> set used) sids;
               remainingPupils = filter (\<lambda>p. \<not> obj_truthy assign (pid p)) pupils;
               tagged = map pid (filter has_tags remainingPupils);
               untagged = map pid (filter (\<lambda>p. \<not> has_tags p) remainingPupils)
           in if length tagged + length untagged > length free
              then Inl (NotEnoughSeats (length sids) (length pupils))
              else
                (let sh = shuffleInPlace free g;
                     assign1 = assign_seq assign tagged (fst sh);
                     free2 = array_sort seat_cmp (drop (length tagged) (fst sh));
                     rs = row_shuffle free2 (snd sh)
                 in Inr (assign_seq assign1 untagged (fst rs)))))"

subsection \<open>Repair\<close>

text \<open>
  The first loop of \<open>repairAssignment\<close>, which fills the map \<open>fixed\<close>:
  \<^verbatim>\<open>
  for(const p of pupils){
    if(p.fixed?.seat){ fixed.set(p.id, p.fixed.seat); }
    else if(p.fixed && ("r" in p.fixed) && ("c" in p.fixed)){
      const k = keyRC(p.fixed.r, p.fixed.c);
      if(!state.room.seats.has(k)) throw new Error(`fixed r,c (...) is not a seat`);
      fixed.set(p.id, state.room.seats.get(k));
    }
  }\<close>
\<close>

fun repair_fixed :: "room \<Rightarrow> pupil list \<Rightarrow> (string \<rightharpoonup> string) \<Rightarrow> error + (string \<rightharpoonup> string)" where
  "repair_fixed rm [] fx = Inr fx"
| "repair_fixed rm (p # ps) fx =
     (case fixed p of
        None \<Rightarrow> repair_fixed rm ps fx
      | Some f \<Rightarrow>
          if truthy (fixed_seat f) then repair_fixed rm ps (fx(pid p \<mapsto> the (fixed_seat f)))
          else if fixed_r f \<noteq> None \<and> fixed_c f \<noteq> None then
            (let k = keyRC (the (fixed_r f)) (the (fixed_c f)) in
             if \<not> map_has k (seats rm) then Inl (FixedNotSeat (the (fixed_r f)) (the (fixed_c f)))
             else repair_fixed rm ps (fx(pid p \<mapsto> the (map_of (seats rm) k))))
          else repair_fixed rm ps fx)"

text \<open>
  The second loop:
  \<^verbatim>\<open>
  for(const p of pupils){
    const pid = p.id;
    if(fixed.has(pid)){
      const sid = fixed.get(pid);
      if(used.has(sid)) throw new Error(`seat ${sid} fixed twice`);
      clean[pid]=sid; used.add(sid);
    } else {
      const sid = assign[pid];
      if(sid && seats.includes(sid) && !used.has(sid)){
        clean[pid]=sid; used.add(sid);
      }
    }
  }\<close>
  When \<open>assign[pid]\<close> is an inherited value, \<open>seats.includes(sid)\<close> is false, as the test is
  for an absent property.
\<close>

fun repair_clean ::
  "string list \<Rightarrow> (string \<rightharpoonup> string) \<Rightarrow> assignment \<Rightarrow> pupil list \<Rightarrow> assignment \<Rightarrow> string list
     \<Rightarrow> error + (assignment \<times> string list)" where
  "repair_clean sids fx assign [] clean used = Inr (clean, used)"
| "repair_clean sids fx assign (p # ps) clean used =
     (case fx (pid p) of
        Some sid \<Rightarrow>
          if sid \<in> set used then Inl (FixedTwice sid)
          else repair_clean sids fx assign ps (clean(pid p \<mapsto> sid)) (set_add sid used)
      | None \<Rightarrow>
          (let sid = assign (pid p) in
           if truthy sid \<and> the sid \<in> set sids \<and> the sid \<notin> set used
           then repair_clean sids fx assign ps (clean(pid p \<mapsto> the sid)) (set_add (the sid) used)
           else repair_clean sids fx assign ps clean used))"

text \<open>
  The third loop; the second argument is the part of \<open>free\<close> from \<open>idx\<close> on.
  \<^verbatim>\<open>
  for(const p of pupils){
    if(clean[p.id]) continue;
    if(idx>=free.length) throw new Error("Not enough seats to repair assignment");
    clean[p.id]=free[idx++];
  }\<close>
  \<open>clean\<close> starts as \<open>{}\<close>, and \<open>clean[p.id]\<close> is read through the prototype.
\<close>

fun repair_fill :: "pupil list \<Rightarrow> string list \<Rightarrow> assignment \<Rightarrow> error + assignment" where
  "repair_fill [] free clean = Inr clean"
| "repair_fill (p # ps) free clean =
     (if obj_truthy clean (pid p) then repair_fill ps free clean
      else (case free of
              [] \<Rightarrow> Inl NotEnoughToRepair
            | s # ss \<Rightarrow> repair_fill ps ss (clean(pid p \<mapsto> s))))"

definition repairAssignment :: "room \<Rightarrow> pupil list \<Rightarrow> assignment \<Rightarrow> int \<Rightarrow> error + assignment" where
  "repairAssignment rm pupils assign seed =
     (let g = mulberry32 seed; sids = allSeatIds rm in
      case repair_fixed rm pupils Map.empty of
        Inl e \<Rightarrow> Inl e
      | Inr fx \<Rightarrow>
          (case repair_clean sids fx assign pupils Map.empty [] of
             Inl e \<Rightarrow> Inl e
           | Inr (clean, used) \<Rightarrow>
               (let free = filter (\<lambda>s. s \<notin> set used) sids;
                    sh = shuffleInPlace free g
                in repair_fill pupils (fst sh) clean)))"

subsection \<open>The solver\<close>

text \<open>
  \<^verbatim>\<open>function isFixedPupil(p){ return !!(p.fixed && (p.fixed.seat || ("r" in p.fixed))); }\<close>
\<close>

definition isFixedPupil :: "pupil \<Rightarrow> bool" where
  "isFixedPupil p = (case fixed p of None \<Rightarrow> False | Some f \<Rightarrow> truthy (fixed_seat f) \<or> fixed_r f \<noteq> None)"

text \<open>
  \<open>fixedSet = new Set(pupils.filter(isFixedPupil).map(p=>p.id))\<close> and
  \<open>movable = pupils.filter(p=>!fixedSet.has(p.id)).map(p=>p.id)\<close>.
\<close>

definition fixedSet :: "pupil list \<Rightarrow> string list" where
  "fixedSet pupils = map pid (filter isFixedPupil pupils)"

definition movable_ids :: "pupil list \<Rightarrow> string list" where
  "movable_ids pupils = map pid (filter (\<lambda>p. pid p \<notin> set (fixedSet pupils)) pupils)"

text \<open>
  \<open>let b = a; while(b===a) b = movable[Math.floor(rng()*movable.length)];\<close> The loop ends
  only when a draw gives an id other than \<open>a\<close>; \<open>None\<close> stands for a loop that never ends.
\<close>

partial_function (option) pick_other :: "string list \<Rightarrow> string \<Rightarrow> rng \<Rightarrow> (string \<times> rng) option" where
  "pick_other movable a g =
     (let d = rng_next g; b = movable ! rand_index (fst d) (length movable)
      in if b = a then pick_other movable a (snd d) else Some (b, snd d))"

text \<open>
  \<open>const next = {...cur}; const sa = next[a], sb = next[b]; next[a] = sb; next[b] = sa;\<close>
  The two values are the entries of the map, which is what the source reads for every
  id that has an entry and for every plain id.
\<close>

definition swap_seats :: "assignment \<Rightarrow> string \<Rightarrow> string \<Rightarrow> assignment" where
  "swap_seats cur a b = (let sa = cur a; sb = cur b in (cur(a := sb))(b := sa))"

text \<open>
  The state of one annealing pass: the current assignment and score, the best ones seen,
  and the generator. The temperature \<open>T\<close> is a floating-point number; the model takes the
  test \<open>rng() < Math.exp(-delta / Math.max(1e-9, T))\<close> of iteration \<open>i\<close> as a parameter
  \<open>acc i delta u\<close>, where \<open>u\<close> is the draw, so that every result holds for every temperature
  schedule.
\<close>

record sa_state =
  cur :: assignment
  curSc :: score
  best :: assignment
  bestSc :: score
  gen :: rng

text \<open>
  One iteration of the loop of \<open>solve\<close> (\<open>zero_break\<close> true) and of \<open>quickImprove\<close>
  (\<open>zero_break\<close> false). The result is \<open>None\<close> when the choice of \<open>b\<close> never ends, an error when
  scoring throws, and otherwise the new state with a flag that says whether the loop is
  left by \<open>break\<close>.
  \<^verbatim>\<open>
  const movable = pupils.filter(p=>!fixedSet.has(p.id)).map(p=>p.id);
  if(movable.length < 2) break;
  const a = movable[Math.floor(rng()*movable.length)];
  let b = a;
  while(b===a) b = movable[Math.floor(rng()*movable.length)];
  const next = {...cur};
  const sa = next[a], sb = next[b];
  next[a] = sb; next[b] = sa;
  const nextSc = scoreAssignment(next);
  const delta = nextSc.total - curSc.total;
  let accept = false;
  if(delta <= 0) accept = true;
  else {
    const p = Math.exp(-delta / Math.max(1e-9, T));
    accept = (rng() < p);
  }
  if(accept){
    cur = next;
    curSc = nextSc;
    if(curSc.total < bestLocalSc.total){
      bestLocal = cur;
      bestLocalSc = curSc;
      if(bestLocalSc.total === 0) break;
    }
  }
  T *= ratio;\<close>
\<close>

definition anneal_step ::
  "room \<Rightarrow> pupil list \<Rightarrow> rule list \<Rightarrow> (nat \<Rightarrow> int \<Rightarrow> 32 word \<Rightarrow> bool) \<Rightarrow> bool \<Rightarrow> nat \<Rightarrow> sa_state
     \<Rightarrow> (error + (bool \<times> sa_state)) option" where
  "anneal_step rm pupils rules acc zero_break i st =
     (let movable = movable_ids pupils in
      if length movable < 2 then Some (Inr (True, st))
      else
        (let d = rng_next (gen st); a = movable ! rand_index (fst d) (length movable) in
         case pick_other movable a (snd d) of
           None \<Rightarrow> None
         | Some (b, g2) \<Rightarrow>
             (let next = swap_seats (cur st) a b in
              case scoreAssignment rm pupils rules next of
                Inl e \<Rightarrow> Some (Inl e)
              | Inr nextSc \<Rightarrow>
                  (let delta = total nextSc - total (curSc st);
                       d3 = (if delta \<le> 0 then (True, g2)
                             else (let d' = rng_next g2 in (acc i delta (fst d'), snd d')))
                   in if fst d3 then
                        (if total nextSc < total (bestSc st) then
                           Some (Inr (zero_break \<and> total nextSc = 0,
                                      st\<lparr>cur := next, curSc := nextSc, best := next, bestSc := nextSc,
                                         gen := snd d3\<rparr>))
                         else Some (Inr (False, st\<lparr>cur := next, curSc := nextSc, gen := snd d3\<rparr>)))
                      else Some (Inr (False, st\<lparr>gen := snd d3\<rparr>))))))"

text \<open>The loop \<open>for(let i=0;i<iters;i++)\<close>: \<open>n\<close> iterations are left, the next one is \<open>i\<close>.\<close>

fun anneal_loop ::
  "room \<Rightarrow> pupil list \<Rightarrow> rule list \<Rightarrow> (nat \<Rightarrow> int \<Rightarrow> 32 word \<Rightarrow> bool) \<Rightarrow> bool \<Rightarrow> nat \<Rightarrow> nat \<Rightarrow> sa_state
     \<Rightarrow> (error + sa_state) option" where
  "anneal_loop rm pupils rules acc zb 0 i st = Some (Inr st)"
| "anneal_loop rm pupils rules acc zb (Suc n) i st =
     (case anneal_step rm pupils rules acc zb i st of
        None \<Rightarrow> None
      | Some (Inl e) \<Rightarrow> Some (Inl e)
      | Some (Inr (brk, st')) \<Rightarrow>
          if brk then Some (Inr st') else anneal_loop rm pupils rules acc zb n (Suc i) st')"

text \<open>
  The result of \<open>solve\<close> and \<open>quickImprove\<close>: \<open>{assignment, bestScore, bestHard}\<close>. \<open>None\<close> is
  \<open>null\<close> for the assignment and \<open>Infinity\<close> for the numbers.
\<close>

record solve_result =
  res_assignment :: "assignment option"
  bestScore :: "int option"
  bestHard :: "nat option"

text \<open>
  \<open>Math.floor(masterRng()*0xFFFFFFFF) >>> 0\<close>: the product of \<open>u / 2 ^ 32\<close> and \<open>2 ^ 32 - 1\<close> is
  \<open>u - u / 2 ^ 32\<close>, which for \<open>u > 0\<close> lies strictly between \<open>u - 1\<close> and \<open>u\<close> and is
  more than half a unit in the last place away from \<open>u\<close>, so the rounded product is at
  least \<open>u - 1\<close> and below \<open>u\<close>, and its floor is \<open>u - 1\<close>.
\<close>

definition restart_seed :: "32 word \<Rightarrow> 32 word" where
  "restart_seed u = (if u = 0 then 0 else u - 1)"

text \<open>
  One restart of \<open>solve\<close>, and the loop over the restarts:
  \<^verbatim>\<open>
  for(let r=0;r<restarts;r++){
    const restartSeed = Math.floor(masterRng()*0xFFFFFFFF) >>> 0;
    const rng = mulberry32(restartSeed);
    let cur = buildInitialAssignment(restartSeed);
    let curSc = scoreAssignment(cur);
    let bestLocal = cur;
    let bestLocalSc = curSc;
    ...
    for(let i=0;i<itersPerRestart;i++){ ... }
    if(bestLocalSc.total < bestScore){
      bestScore = bestLocalSc.total;
      bestHard = bestLocalSc.hardBreaks;
      bestGlobal = bestLocal;
    }
    progressCb?.({restart: r+1, restarts, bestScore, bestHard});
    if(bestScore === 0) break;
  }
  return { assignment: bestGlobal, bestScore, bestHard };\<close>
\<close>

definition keep_best :: "solve_result \<Rightarrow> sa_state \<Rightarrow> solve_result" where
  "keep_best res st =
     (if (case bestScore res of None \<Rightarrow> True | Some bs \<Rightarrow> total (bestSc st) < bs)
      then \<lparr>res_assignment = Some (best st), bestScore = Some (total (bestSc st)),
            bestHard = Some (hardBreaks (bestSc st))\<rparr>
      else res)"

fun restarts_loop ::
  "room \<Rightarrow> pupil list \<Rightarrow> rule list \<Rightarrow> (nat \<Rightarrow> int \<Rightarrow> 32 word \<Rightarrow> bool) \<Rightarrow> nat \<Rightarrow> nat \<Rightarrow> rng \<Rightarrow> solve_result
     \<Rightarrow> (error + solve_result) option" where
  "restarts_loop rm pupils rules acc iters 0 mg res = Some (Inr res)"
| "restarts_loop rm pupils rules acc iters (Suc n) mg res =
     (let d = rng_next mg; restartSeed = restart_seed (fst d); g = mulberry32 (uint restartSeed) in
      case buildInitialAssignment rm pupils (uint restartSeed) of
        Inl e \<Rightarrow> Some (Inl e)
      | Inr c0 \<Rightarrow>
          (case scoreAssignment rm pupils rules c0 of
             Inl e \<Rightarrow> Some (Inl e)
           | Inr sc0 \<Rightarrow>
               (case anneal_loop rm pupils rules acc True iters 0
                       \<lparr>cur = c0, curSc = sc0, best = c0, bestSc = sc0, gen = g\<rparr> of
                  None \<Rightarrow> None
                | Some (Inl e) \<Rightarrow> Some (Inl e)
                | Some (Inr st) \<Rightarrow>
                    (let res' = keep_best res st in
                     if bestScore res' = Some 0 then Some (Inr res')
                     else restarts_loop rm pupils rules acc iters n (snd d) res'))))"

text \<open>
  \<^verbatim>\<open>
  function solve({restarts, itersPerRestart, t0, t1, seed, progressCb}){
    const pupils = getPupils();
    if(pupils.length === 0) throw new Error("No pupils.");
    const seats = allSeatIds();
    if(seats.length === 0) throw new Error("No seats in map.");
    if(pupils.length > seats.length) throw new Error(`Not enough seats ...`);
    ...
  }\<close>
  \<open>restarts\<close> and \<open>itersPerRestart\<close> are the numbers of iterations; \<open>progressCb\<close>
  does not change the result.
\<close>

definition solve ::
  "room \<Rightarrow> pupil list \<Rightarrow> rule list \<Rightarrow> (nat \<Rightarrow> int \<Rightarrow> 32 word \<Rightarrow> bool) \<Rightarrow> nat \<Rightarrow> nat \<Rightarrow> int
     \<Rightarrow> (error + solve_result) option" where
  "solve rm pupils rules acc restarts itersPerRestart seed =
     (if length pupils = 0 then Some (Inl NoPupils)
      else if length (allSeatIds rm) = 0 then Some (Inl NoSeats)
      else if length pupils > length (allSeatIds rm)
        then Some (Inl (NotEnoughSeats (length (allSeatIds rm)) (length pupils)))
      else restarts_loop rm pupils rules acc itersPerRestart restarts (mulberry32 seed)
             \<lparr>res_assignment = None, bestScore = None, bestHard = None\<rparr>)"

text \<open>
  \<open>quickImprove({iters, t0, t1, seed, progressCb})\<close>. The stored assignment
  \<open>state.assignment\<close> is given by its entries; \<open>Object.keys(...).length\<close> is their number.
  \<^verbatim>\<open>
  let cur = Object.keys(state.assignment||{}).length ? {...state.assignment} : buildInitialAssignment(seed);
  cur = repairAssignment(cur, seed);
  let curSc = scoreAssignment(cur);
  let best = cur;
  let bestSc = curSc;
  const rng = mulberry32(seed >>> 0);
  ...
  return { assignment: best, bestScore: bestSc.total, bestHard: bestSc.hardBreaks };\<close>
\<close>

definition quickImprove ::
  "room \<Rightarrow> pupil list \<Rightarrow> rule list \<Rightarrow> (string \<times> string) list \<Rightarrow> (nat \<Rightarrow> int \<Rightarrow> 32 word \<Rightarrow> bool) \<Rightarrow> nat \<Rightarrow> int
     \<Rightarrow> (error + solve_result) option" where
  "quickImprove rm pupils rules stored acc iters seed =
     (case (if stored \<noteq> [] then Inr (map_of stored) else buildInitialAssignment rm pupils seed) of
        Inl e \<Rightarrow> Some (Inl e)
      | Inr c0 \<Rightarrow>
          (case repairAssignment rm pupils c0 seed of
             Inl e \<Rightarrow> Some (Inl e)
           | Inr c1 \<Rightarrow>
               (case scoreAssignment rm pupils rules c1 of
                  Inl e \<Rightarrow> Some (Inl e)
                | Inr sc1 \<Rightarrow>
                    (case anneal_loop rm pupils rules acc False iters 0
                            \<lparr>cur = c1, curSc = sc1, best = c1, bestSc = sc1, gen = mulberry32 seed\<rparr> of
                       None \<Rightarrow> None
                     | Some (Inl e) \<Rightarrow> Some (Inl e)
                     | Some (Inr st) \<Rightarrow>
                         Some (Inr \<lparr>res_assignment = Some (best st),
                                    bestScore = Some (total (bestSc st)),
                                    bestHard = Some (hardBreaks (bestSc st))\<rparr>)))))"

subsection \<open>Notions used in the statements\<close>

text \<open>
  The seat a fixed pupil is declared to have, as both the builder and the repair routine
  resolve it: \<open>p.fixed.seat\<close> when it is truthy, else the seat at \<open>(p.fixed.r, p.fixed.c)\<close>
  when both coordinates are present. \<open>None\<close> when the pupil is not fixed in this sense or
  the coordinate is not a seat.
\<close>

definition resolved_seat :: "room \<Rightarrow> pupil \<Rightarrow> string option" where
  "resolved_seat rm p =
     (case fixed p of
        None \<Rightarrow> None
      | Some f \<Rightarrow>
          if truthy (fixed_seat f) then fixed_seat f
          else if fixed_r f \<noteq> None \<and> fixed_c f \<noteq> None
            then map_of (seats rm) (keyRC (the (fixed_r f)) (the (fixed_c f)))
          else None)"




text \<open>
  The rooms that the classify operations build from the empty room, with coordinates in
  the range 0..99 of the seat identifiers: every entry of \<open>seats\<close> maps a key to the seat
  identifier of that key, and no key occurs twice.
\<close>

definition seat_entry_ok :: "key \<times> string \<Rightarrow> bool" where
  "seat_entry_ok e =
     (0 \<le> fst (fst e) \<and> fst (fst e) \<le> 99 \<and> 0 \<le> snd (fst e) \<and> snd (fst e) \<le> 99 \<and>
      snd e = seatIdFor (fst (fst e)) (snd (fst e)))"

definition room_wf :: "room \<Rightarrow> bool" where
  "room_wf rm = (distinct (map fst (seats rm)) \<and> list_all seat_entry_ok (seats rm))"

subsection \<open>Sample data\<close>

text \<open>
  Small rooms, pupils, rules and assignments on which the functions are evaluated: a room
  with one row of three seats and a teacher tile, rooms with one and two seats, two
  pupils that are not fixed, a pupil fixed to a coordinate, a pupil fixed to a seat
  identifier that no room here has, a pupil whose id is the name of an inherited
  property, a hard and a soft rule.
\<close>

definition sample_room :: room where
  "sample_room =
     \<lparr>blocked = [], teacher = [(1, 1)],
      seats = [((0, 0), ''S00_00''), ((0, 1), ''S00_01''), ((0, 2), ''S00_02'')]\<rparr>"

definition pupilA :: pupil where
  "pupilA = \<lparr>pid = ''A'', tags = [], fixed = None\<rparr>"

definition pupilB :: pupil where
  "pupilB = \<lparr>pid = ''B'', tags = [], fixed = None\<rparr>"

definition blank_rule :: rule where
  "blank_rule =
     \<lparr>rtype = '''', hard = False, weight = None, rule_a = '''', rule_b = '''', rule_d = None,
      rule_metric = None, pupil_id = '''', rule_k = None, min_d = None, r_min = None,
      r_max = None, allowed_seat_ids = None, rule_tag = ''''\<rparr>"

definition rule_far :: rule where
  "rule_far = blank_rule\<lparr>rtype := ''MinDistance'', hard := True, rule_a := ''A'', rule_b := ''B'',
     rule_d := Some 5, rule_metric := Some Manhattan\<rparr>"

definition rule_front :: "int option \<Rightarrow> rule" where
  "rule_front w = blank_rule\<lparr>rtype := ''PreferFront'', weight := w, pupil_id := ''A'',
     rule_k := Some 0\<rparr>"

definition assignAB :: assignment where
  "assignAB = [''A'' \<mapsto> ''S00_00'', ''B'' \<mapsto> ''S00_01'']"

definition pupilF :: pupil where
  "pupilF = \<lparr>pid = ''F'', tags = [], fixed = Some \<lparr>fixed_seat = None, fixed_r = Some 0, fixed_c = Some 2\<rparr>\<rparr>"

definition assignABF :: assignment where
  "assignABF = [''A'' \<mapsto> ''S00_00'', ''B'' \<mapsto> ''S00_01'', ''F'' \<mapsto> ''S00_02'']"

definition pupilC :: pupil where
  "pupilC = \<lparr>pid = ''constructor'', tags = [], fixed = None\<rparr>"

definition one_seat_room :: room where
  "one_seat_room = \<lparr>blocked = [], teacher = [], seats = [((0, 0), ''S00_00'')]\<rparr>"

definition pupilG :: pupil where
  "pupilG = \<lparr>pid = ''G'', tags = [], fixed = Some \<lparr>fixed_seat = Some ''S09_09'', fixed_r = None, fixed_c = None\<rparr>\<rparr>"


definition assign_clash :: assignment where
  "assign_clash = [''A'' \<mapsto> ''S00_00'', ''B'' \<mapsto> ''S00_00'']"

text \<open>
  A soft rule that wants pupil \<open>A\<close> on the seat \<open>S00_00\<close>, and the assignment that has \<open>A\<close> and
  \<open>B\<close> the other way round.
\<close>

definition rule_seatA :: rule where
  "rule_seatA = blank_rule\<lparr>rtype := ''MustBeInSeats'', pupil_id := ''A'',
     allowed_seat_ids := Some [''S00_00'']\<rparr>"

definition assignBAF :: assignment where
  "assignBAF = [''A'' \<mapsto> ''S00_01'', ''B'' \<mapsto> ''S00_00'', ''F'' \<mapsto> ''S00_02'']"

section \<open>Properties\<close>

subsection \<open>Reads of an assignment object\<close>


lemma obj_truthy_plain: "\<not> inherited_key k \<Longrightarrow> obj_truthy obj k = truthy (obj k)"
  by (simp add: obj_truthy_def truthy_def split: option.splits)

subsection \<open>Seat identifiers and coordinates\<close>

lemma is_digit_digit_char: "n < 10 \<Longrightarrow> is_digit (digit_char n)"
  by (simp add: is_digit_def digit_char_def)

lemma digit_val_digit_char: "n < 10 \<Longrightarrow> digit_val (digit_char n) = int n"
  by (simp add: digit_val_def digit_char_def)

lemma digit_char_digit_val: "is_digit ch \<Longrightarrow> digit_char (nat (digit_val ch)) = ch"
  by (simp add: is_digit_def digit_char_def digit_val_def nat_diff_distrib' le_imp_diff_is_add)

lemma string_of_nat_small: "n < 10 \<Longrightarrow> string_of_nat n = [digit_char n]"
  by (subst string_of_nat.simps) simp

lemma string_of_nat_two:
  "10 \<le> n \<Longrightarrow> n < 100 \<Longrightarrow> string_of_nat n = [digit_char (n div 10), digit_char (n mod 10)]"
  by (subst string_of_nat.simps) (simp add: string_of_nat_small)

lemma char_of_48: "char_of (48::nat) = CHR ''0''"
  by code_simp

lemma pad2_of_nat:
  "n < 100 \<Longrightarrow> padStart 2 (CHR ''0'') (string_of_nat n) = [digit_char (n div 10), digit_char (n mod 10)]"
  by (cases "n < 10") (simp_all add: padStart_def string_of_nat_small string_of_nat_two digit_char_def char_of_48)

lemma pad2_String_js:
  "0 \<le> i \<Longrightarrow> i \<le> 99 \<Longrightarrow>
   padStart 2 (CHR ''0'') (String_js i) = [digit_char (nat i div 10), digit_char (nat i mod 10)]"
  by (simp add: String_js_def pad2_of_nat)

lemma parseInt10_two:
  "n < 100 \<Longrightarrow> parseInt10 [digit_char (n div 10), digit_char (n mod 10)] = int n"
  by (simp add: parseInt10_def digit_val_digit_char) presburger

lemma seatPosById_Some_iff:
  "seatPosById s = Some p \<longleftrightarrow>
     (\<exists>a b c d. s = [CHR ''S'', a, b, CHR ''_'', c, d] \<and>
        is_digit a \<and> is_digit b \<and> is_digit c \<and> is_digit d \<and>
        p = \<lparr>pos_r = parseInt10 [a, b], pos_c = parseInt10 [c, d]\<rparr>)"
  by (cases s rule: seatPosById.cases) auto

lemma seatPosById_None_iff:
  "seatPosById s = None \<longleftrightarrow>
     \<not> (\<exists>a b c d. s = [CHR ''S'', a, b, CHR ''_'', c, d] \<and>
        is_digit a \<and> is_digit b \<and> is_digit c \<and> is_digit d)"
  by (cases s rule: seatPosById.cases) auto

lemma parseInt10_pair_range:
  "is_digit a \<Longrightarrow> is_digit b \<Longrightarrow> 0 \<le> parseInt10 [a, b] \<and> parseInt10 [a, b] \<le> 99"
  by (simp add: parseInt10_def digit_val_def is_digit_def)

lemma pad2_parseInt10:
  assumes "is_digit a" "is_digit b"
  shows "padStart 2 (CHR ''0'') (String_js (parseInt10 [a, b])) = [a, b]"
proof -
  let ?n = "parseInt10 [a, b]"
  have va: "0 \<le> digit_val a" "digit_val a \<le> 9" and vb: "0 \<le> digit_val b" "digit_val b \<le> 9"
    using assms by (simp_all add: digit_val_def is_digit_def)
  have n: "?n = digit_val a * 10 + digit_val b"
    by (simp add: parseInt10_def)
  have r: "0 \<le> ?n" "?n \<le> 99"
    using parseInt10_pair_range [OF assms] by simp_all
  have "nat ?n div 10 = nat (digit_val a)" "nat ?n mod 10 = nat (digit_val b)"
    using va vb unfolding n by (simp_all add: nat_div_distrib nat_mod_distrib nat_add_distrib nat_mult_distrib)
  then show ?thesis
    using pad2_String_js [OF r] assms by (simp add: digit_char_digit_val)
qed

lemma seatPosById_seatIdFor:
  assumes "0 \<le> r" "r \<le> 99" "0 \<le> c" "c \<le> 99"
  shows "seatPosById (seatIdFor r c) = Some \<lparr>pos_r = r, pos_c = c\<rparr>"
proof -
  have "nat r < 100" "nat c < 100" using assms by simp_all
  then show ?thesis
    using assms
    by (simp add: seatIdFor_def pad2_String_js parseInt10_two is_digit_digit_char)
qed

lemma seatIdFor_seatPosById:
  assumes "seatPosById s = Some p"
  shows "seatIdFor (pos_r p) (pos_c p) = s"
  using assms by (auto simp: seatPosById_Some_iff seatIdFor_def pad2_parseInt10)

text \<open>
  C9. Within rows and columns 0..99 the seat identifier determines the coordinate:
  \<open>seatPosById (seatIdFor r c)\<close> is \<open>{r, c}\<close>; \<open>seatPosById\<close> returns \<open>null\<close> exactly on the
  strings that are not \<open>S\<close>, two digits, \<open>_\<close>, two digits; and every identifier it accepts
  is the identifier of the coordinate it returns, which lies in the range. So
  \<open>seatIdFor\<close> and \<open>seatPosById\<close> are inverse bijections between the coordinates of the
  range and the strings of the pattern.
\<close>

theorem seat_id_coordinate_bijection:
  "(0 \<le> r \<and> r \<le> 99 \<and> 0 \<le> c \<and> c \<le> 99 \<longrightarrow>
      seatPosById (seatIdFor r c) = Some \<lparr>pos_r = r, pos_c = c\<rparr>) \<and>
   (seatPosById s = None \<longleftrightarrow>
      \<not> (\<exists>a b c d. s = [CHR ''S'', a, b, CHR ''_'', c, d] \<and>
            is_digit a \<and> is_digit b \<and> is_digit c \<and> is_digit d)) \<and>
   (seatPosById s = Some p \<longrightarrow>
      0 \<le> pos_r p \<and> pos_r p \<le> 99 \<and> 0 \<le> pos_c p \<and> pos_c p \<le> 99 \<and>
      seatIdFor (pos_r p) (pos_c p) = s)"
proof (intro conjI impI)
  assume "0 \<le> r \<and> r \<le> 99 \<and> 0 \<le> c \<and> c \<le> 99"
  then show "seatPosById (seatIdFor r c) = Some \<lparr>pos_r = r, pos_c = c\<rparr>"
    by (simp add: seatPosById_seatIdFor)
next
  show "seatPosById s = None \<longleftrightarrow>
      \<not> (\<exists>a b c d. s = [CHR ''S'', a, b, CHR ''_'', c, d] \<and>
            is_digit a \<and> is_digit b \<and> is_digit c \<and> is_digit d)"
    by (rule seatPosById_None_iff)
next
  assume h: "seatPosById s = Some p"
  then obtain a b c d where "is_digit a" "is_digit b" "is_digit c" "is_digit d"
    and p: "p = \<lparr>pos_r = parseInt10 [a, b], pos_c = parseInt10 [c, d]\<rparr>"
    by (auto simp: seatPosById_Some_iff)
  then show "0 \<le> pos_r p" "pos_r p \<le> 99" "0 \<le> pos_c p" "pos_c p \<le> 99"
    using parseInt10_pair_range by simp_all
  show "seatIdFor (pos_r p) (pos_c p) = s"
    using h by (rule seatIdFor_seatPosById)
qed

theorem seat_id_coordinate_bijection_witness:
  "seatPosById (seatIdFor 3 12) = Some \<lparr>pos_r = 3, pos_c = 12\<rparr> \<and>
   seatIdFor 3 12 = ''S03_12'' \<and>
   seatPosById ''S3_12'' = None \<and>
   seatPosById ''S03_12'' = Some \<lparr>pos_r = 3, pos_c = 12\<rparr>"
proof -
  have id: "seatIdFor 3 12 = ''S03_12''"
    by (simp add: seatIdFor_def padStart_def String_js_def string_of_nat.simps digit_char_def)
      code_simp
  have "seatPosById (seatIdFor 3 12) = Some \<lparr>pos_r = 3, pos_c = 12\<rparr>"
    using seat_id_coordinate_bijection [of 3 12 "''S3_12''" "\<lparr>pos_r = 3, pos_c = 12\<rparr>"] by simp
  moreover have "seatPosById ''S3_12'' = None"
    by simp
  ultimately show ?thesis
    using id by simp
qed


subsection \<open>Tile classification\<close>

lemma map_has_map_set: "map_has k' (map_set k v es) \<longleftrightarrow> k' = k \<or> map_has k' es"
  by (induction es) (auto simp: map_has_def)

lemma map_has_map_delete: "map_has k' (map_delete k es) \<longleftrightarrow> k' \<noteq> k \<and> map_has k' es"
  by (auto simp: map_has_def map_delete_def)

lemma ensureBlocked_only_blocked:
  "isBlocked (ensureBlocked rm r c) r c \<and> \<not> isSeat (ensureBlocked rm r c) r c \<and>
   \<not> isTeacher (ensureBlocked rm r c) r c"
  by (simp add: ensureBlocked_def isBlocked_def isSeat_def isTeacher_def Let_def set_add_def
      set_delete_def map_has_map_delete)

lemma ensureEmpty_unclassified:
  "\<not> isBlocked (ensureEmpty rm r c) r c \<and> \<not> isSeat (ensureEmpty rm r c) r c \<and>
   \<not> isTeacher (ensureEmpty rm r c) r c"
  by (simp add: ensureEmpty_def isBlocked_def isSeat_def isTeacher_def Let_def
      set_delete_def map_has_map_delete)

lemma ensureSeat_not_blocked:
  "isSeat (ensureSeat rm r c) r c \<and> \<not> isBlocked (ensureSeat rm r c) r c \<and>
   isTeacher (ensureSeat rm r c) r c = isTeacher rm r c"
  by (simp add: ensureSeat_def isBlocked_def isSeat_def isTeacher_def Let_def
      set_delete_def map_has_map_set)

lemma ensureTeacher_not_blocked:
  "isTeacher (ensureTeacher rm r c) r c \<and> \<not> isBlocked (ensureTeacher rm r c) r c \<and>
   isSeat (ensureTeacher rm r c) r c = isSeat rm r c"
  by (simp add: ensureTeacher_def isBlocked_def isSeat_def isTeacher_def Let_def
      set_delete_def set_add_def)

text \<open>
  C1. The claim is that after a classify operation the coordinate is in at most one of
  the seat, teacher and blocked sets, and that classifying as a seat removes the
  coordinate from the teacher set and vice versa. \<open>ensureBlocked\<close> and \<open>ensureEmpty\<close> clear
  the other sets, but \<open>ensureSeat\<close> and \<open>ensureTeacher\<close> delete the key from \<open>blocked\<close>
  only: marking tile (0, 4) as teacher and then as seat, or as seat and then as teacher,
  leaves it both a seat and a teacher tile.
\<close>

theorem ensureSeat_keeps_teacher:
  "isSeat (ensureSeat (ensureTeacher empty_room 0 4) 0 4) 0 4 \<and>
   isTeacher (ensureSeat (ensureTeacher empty_room 0 4) 0 4) 0 4 \<and>
   isSeat (ensureTeacher (ensureSeat empty_room 0 4) 0 4) 0 4 \<and>
   isTeacher (ensureTeacher (ensureSeat empty_room 0 4) 0 4) 0 4"
  by (simp add: ensureSeat_def ensureTeacher_def empty_room_def isBlocked_def isSeat_def
      isTeacher_def Let_def set_add_def map_has_def keyRC_def)

subsection \<open>Penalties and scoring\<close>

lemma to_int32_id: "- (2 ^ 31) \<le> x \<Longrightarrow> x < 2 ^ 31 \<Longrightarrow> to_int32 x = x"
  unfolding to_int32_def by (simp add: sint_sbintrunc' signed_take_bit_int_eq_self)

lemma score_loop_sums:
  "score_loop assign byId tt rules sc0 = Inr sc \<Longrightarrow>
   \<exists>pens. map (\<lambda>rule. rulePenalty rule assign byId tt) rules = map Inr pens \<and>
     total sc = total sc0 + sum_list pens \<and>
     hardBreaks sc = hardBreaks sc0 +
       length (filter (\<lambda>(rule, pen). hard rule \<and> pen \<ge> HARD_MULT) (zip rules pens))"
proof (induction rules arbitrary: sc0)
  case Nil
  then show ?case by simp
next
  case (Cons rule rules)
  from Cons.prems obtain pen where pen: "rulePenalty rule assign byId tt = Inr pen"
    by (auto split: sum.splits)
  let ?sc1 = "\<lparr>total = total sc0 + pen,
             hardBreaks = (if pen \<ge> HARD_MULT \<and> hard rule then hardBreaks sc0 + 1 else hardBreaks sc0)\<rparr>"
  from Cons.prems pen have "score_loop assign byId tt rules ?sc1 = Inr sc" by simp
  from Cons.IH [OF this] obtain pens where
    p: "map (\<lambda>rule. rulePenalty rule assign byId tt) rules = map Inr pens"
    "total sc = total ?sc1 + sum_list pens"
    "hardBreaks sc = hardBreaks ?sc1 +
       length (filter (\<lambda>(rule, pen). hard rule \<and> pen \<ge> HARD_MULT) (zip rules pens))"
    by blast
  show ?case
    by (rule exI [of _ "pen # pens"]) (use pen p in simp)
qed

lemma rulePenalty_hard_threshold:
  assumes "rulePenalty rule assign byId tt = Inr pen" "hard rule"
  shows "pen \<ge> HARD_MULT \<longleftrightarrow> (\<exists>p. rawPenalty rule assign byId tt = Inr p \<and> 0 < p)"
proof -
  from assms obtain p where p: "rawPenalty rule assign byId tt = Inr p"
    and pen: "pen = (if p \<le> 0 then 0 else p * HARD_MULT)"
    by (auto simp: rulePenalty_def Let_def split: sum.splits)
  show ?thesis
  proof (cases "p \<le> 0")
    case True
    then show ?thesis using p pen by (simp add: HARD_MULT_def)
  next
    case False
    then have "1 \<le> p" by simp
    then have "HARD_MULT \<le> p * HARD_MULT"
      by (simp add: HARD_MULT_def)
    then show ?thesis using p pen False by simp
  qed
qed

lemma dist_no_error: "m \<noteq> OtherMetric \<Longrightarrow> dist m a b \<noteq> Inl e"
  by (cases m) simp_all

lemma teacher_best_no_error:
  "m \<noteq> OtherMetric \<Longrightarrow> teacher_best m pp ts b0 \<noteq> Inl e"
  by (induction ts arbitrary: b0) (auto simp: dist_no_error split: sum.splits)

lemma pair_shortfall_no_error:
  "m \<noteq> OtherMetric \<Longrightarrow> pair_shortfall m minD assign x y \<noteq> Inl e"
  by (auto simp: pair_shortfall_def dist_no_error split: option.splits sum.splits)

lemma tag_inner_no_error:
  "m \<noteq> OtherMetric \<Longrightarrow> tag_inner m minD assign x ys pen \<noteq> Inl e"
  by (induction ys arbitrary: pen) (auto simp: pair_shortfall_no_error split: sum.splits)

lemma tag_outer_no_error:
  "m \<noteq> OtherMetric \<Longrightarrow> tag_outer m minD assign xs pen \<noteq> Inl e"
  by (induction xs arbitrary: pen) (auto simp: tag_inner_no_error split: sum.splits)

lemma rawPenalty_no_error:
  assumes "rule_metric rule \<noteq> Some OtherMetric"
  shows "rawPenalty rule assign byId tt \<noteq> Inl e"
proof -
  let ?m = "metric_or_default (rule_metric rule)"
  have m: "?m \<noteq> OtherMetric"
    using assms by (cases "rule_metric rule") (simp_all add: metric_or_default_def)
  note d = dist_no_error [OF m] teacher_best_no_error [OF m] tag_outer_no_error [OF m]
  consider (mind) "rtype rule = ''MinDistance''" | (maxd) "rtype rule = ''MaxDistance''"
    | (nadj) "rtype rule = ''NotAdjacent''" | (front) "rtype rule = ''PreferFront''"
    | (away) "rtype rule = ''PreferAwayFromTeacher''" | (rows) "rtype rule = ''MustBeInRows''"
    | (seats) "rtype rule = ''MustBeInSeats''" | (tag) "rtype rule = ''TagSeparation''"
    | (other) "rtype rule \<notin> {''MinDistance'', ''MaxDistance'', ''NotAdjacent'', ''PreferFront'',
         ''PreferAwayFromTeacher'', ''MustBeInRows'', ''MustBeInSeats'', ''TagSeparation''}"
    by blast
  then show ?thesis
  proof cases
    case mind
    then show ?thesis
      by (simp add: rawPenalty_def Let_def d split: option.splits sum.splits)
  next
    case maxd
    then show ?thesis
      by (simp add: rawPenalty_def Let_def d split: option.splits sum.splits)
  next
    case nadj
    then show ?thesis
      by (simp add: rawPenalty_def Let_def split: option.splits)
  next
    case front
    then show ?thesis
      by (simp add: rawPenalty_def Let_def split: option.splits)
  next
    case away
    then show ?thesis
      by (simp add: rawPenalty_def Let_def d split: option.splits sum.splits)
  next
    case rows
    then show ?thesis
      by (simp add: rawPenalty_def Let_def split: option.splits)
  next
    case seats
    then show ?thesis
      by (simp add: rawPenalty_def Let_def)
  next
    case tag
    then show ?thesis
      by (simp add: rawPenalty_def Let_def d)
  next
    case other
    then show ?thesis
      by (simp add: rawPenalty_def)
  qed
qed

lemma rulePenalty_no_error:
  "rule_metric rule \<noteq> Some OtherMetric \<Longrightarrow> rulePenalty rule assign byId tt \<noteq> Inl e"
  by (simp add: rulePenalty_def Let_def rawPenalty_no_error split: sum.splits)

lemma score_loop_no_error:
  "list_all (\<lambda>rule. rule_metric rule \<noteq> Some OtherMetric) rules \<Longrightarrow>
   score_loop assign byId tt rules sc0 \<noteq> Inl e"
  by (induction rules arbitrary: sc0) (auto simp: rulePenalty_no_error split: sum.splits)

lemma sample_positions:
  "posOf assignAB ''A'' = Some \<lparr>pos_r = 0, pos_c = 0\<rparr>"
  "posOf assignAB ''B'' = Some \<lparr>pos_r = 0, pos_c = 1\<rparr>"
  by (simp_all add: posOf_def assignAB_def truthy_def is_digit_def parseInt10_def digit_val_def)

lemma or0_small: "or0 None = 0" "or0 (Some 0) = 0" "or0 (Some 3) = 3" "or0 (Some 5) = 5"
  by (simp_all add: or0_def to_int32_id)

lemma sample_raw_front: "rawPenalty (rule_front w) assignAB byId tt = Inr 1"
  by (simp add: rawPenalty_def rule_front_def blank_rule_def sample_positions or0_small)

lemma sample_raw_far: "rawPenalty rule_far assignAB byId tt = Inr 4"
  by (simp add: rawPenalty_def rule_far_def blank_rule_def sample_positions or0_small
      metric_or_default_def manhattan_def)

lemma sample_pen_front: "rulePenalty (rule_front (Some 3)) assignAB byId tt = Inr 3"
  by (simp add: rulePenalty_def sample_raw_front) (simp add: rule_front_def blank_rule_def or0_small)

lemma sample_pen_far: "rulePenalty rule_far assignAB byId tt = Inr 4000000"
  by (simp add: rulePenalty_def sample_raw_far) (simp add: rule_far_def blank_rule_def HARD_MULT_def)

lemma sample_score:
  "scoreAssignment sample_room [pupilA, pupilB] [rule_far, rule_front (Some 3)] assignAB =
     Inr \<lparr>total = 4000003, hardBreaks = 1\<rparr>"
  by (simp add: scoreAssignment_def sample_pen_front sample_pen_far HARD_MULT_def)
    (simp add: rule_far_def rule_front_def blank_rule_def)

lemma to_int32_wrap: "to_int32 x = (x + 2 ^ 31) mod 2 ^ 32 - 2 ^ 31"
  unfolding to_int32_def
  by (simp add: sint_sbintrunc' signed_take_bit_eq_take_bit_shift take_bit_eq_mod)

text \<open>
  A negative weight below the 32-bit range does not count as weight 1: \<open>-2147483649|0\<close> is
  \<open>2147483647\<close>, and a soft rule with that weight and raw penalty 1 contributes 2147483647.
\<close>

theorem negative_weight_wraps:
  "rawPenalty (rule_front (Some (- 2147483649))) assignAB [] [] = Inr 1 \<and>
   \<not> hard (rule_front (Some (- 2147483649))) \<and>
   rulePenalty (rule_front (Some (- 2147483649))) assignAB [] [] = Inr 2147483647"
proof -
  have s: "\<not> hard (rule_front w)" "weight (rule_front w) = w" for w
    by (simp_all add: rule_front_def blank_rule_def)
  show ?thesis
    by (simp add: rulePenalty_def sample_raw_front s or0_def to_int32_wrap)
qed

text \<open>
  C10 (as amended). A soft rule whose raw penalty \<open>p\<close> is positive contributes \<open>p * max 1 w\<close>,
  where \<open>w\<close> is \<open>rule.weight|0\<close>: 0 when the weight is missing, and else the weight wrapped
  into the signed 32-bit range, which is \<open>(x + 2 ^ 31) mod 2 ^ 32 - 2 ^ 31\<close> for the integer
  \<open>x\<close>. The contribution is \<open>p\<close>, as for weight 1, exactly when the weight is missing or
  \<open>w\<close> is at most 1; so it is for every weight from \<open>- 2 ^ 31\<close> to 0. The contribution is
  never less than \<open>p\<close>.
\<close>

theorem soft_rule_contribution:
  assumes "rawPenalty rule assign byId tt = Inr p" "0 < p" "\<not> hard rule"
  shows "rulePenalty rule assign byId tt =
           Inr (p * max 1 (case weight rule of None \<Rightarrow> 0 | Some x \<Rightarrow> (x + 2 ^ 31) mod 2 ^ 32 - 2 ^ 31)) \<and>
         (rulePenalty rule assign byId tt = Inr p \<longleftrightarrow>
            weight rule = None \<or> (\<exists>x. weight rule = Some x \<and> (x + 2 ^ 31) mod 2 ^ 32 - 2 ^ 31 \<le> 1)) \<and>
         (weight rule = None \<or> (\<exists>x. weight rule = Some x \<and> - (2 ^ 31) \<le> x \<and> x \<le> 0) \<longrightarrow>
            rulePenalty rule assign byId tt = Inr p) \<and>
         (\<exists>q. rulePenalty rule assign byId tt = Inr q \<and> p \<le> q)"
proof -
  define w where "w = (case weight rule of None \<Rightarrow> 0 | Some x \<Rightarrow> (x + 2 ^ 31) mod 2 ^ 32 - 2 ^ 31)"
  have o: "or0 (weight rule) = w"
    by (simp add: or0_def w_def to_int32_wrap split: option.splits)
  have c: "rulePenalty rule assign byId tt = Inr (p * max 1 w)"
    using assms by (simp add: rulePenalty_def Let_def o)
  have e: "p * max 1 w = p \<longleftrightarrow> w \<le> 1"
    using assms(2) by (auto simp: max_def)
  have i: "rulePenalty rule assign byId tt = Inr p \<longleftrightarrow>
        weight rule = None \<or> (\<exists>x. weight rule = Some x \<and> (x + 2 ^ 31) mod 2 ^ 32 - 2 ^ 31 \<le> 1)"
    unfolding c using e by (cases "weight rule") (simp_all add: w_def)
  have s: "(x + 2 ^ 31) mod 2 ^ 32 - 2 ^ 31 = x" if "- (2 ^ 31) \<le> x" "x \<le> 0" for x :: int
    using that by (simp add: mod_pos_pos_trivial)
  have r: "weight rule = None \<or> (\<exists>x. weight rule = Some x \<and> - (2 ^ 31) \<le> x \<and> x \<le> 0) \<longrightarrow>
        rulePenalty rule assign byId tt = Inr p"
    unfolding i using s by auto
  have "p \<le> p * max 1 w"
    using assms(2) by (simp add: max_def)
  then show ?thesis
    using c i r by (simp add: w_def)
qed

theorem soft_rule_contribution_witness:
  "rulePenalty (rule_front (Some 0)) assignAB [] [] = Inr 1 \<and>
   rulePenalty (rule_front None) assignAB [] [] = Inr 1 \<and>
   rulePenalty (rule_front (Some (- 5))) assignAB [] [] = Inr 1 \<and>
   rulePenalty (rule_front (Some 3)) assignAB [] [] = Inr 3 \<and>
   rulePenalty (rule_front (Some 4294967299)) assignAB [] [] = Inr 3 \<and>
   rulePenalty (rule_front (Some (- 4294967294))) assignAB [] [] = Inr 2"
proof -
  have s: "\<not> hard (rule_front w)" "weight (rule_front w) = w" for w
    by (simp_all add: rule_front_def blank_rule_def)
  have "(0::int) < 1" by simp
  note w = soft_rule_contribution [OF sample_raw_front this s(1)]
  from w [of "Some 0" "[]" "[]"] w [of None "[]" "[]"] w [of "Some (- 5)" "[]" "[]"]
    w [of "Some 3" "[]" "[]"] w [of "Some 4294967299" "[]" "[]"] w [of "Some (- 4294967294)" "[]" "[]"]
  show ?thesis by (simp add: s)
qed

lemma hard_count_by_raw:
  "map (\<lambda>rule. rulePenalty rule assign byId tt) rules = map Inr pens \<Longrightarrow>
   length (filter (\<lambda>(rule, pen). hard rule \<and> pen \<ge> HARD_MULT) (zip rules pens)) =
   length (filter (\<lambda>rule. hard rule \<and> (\<exists>p. rawPenalty rule assign byId tt = Inr p \<and> 0 < p)) rules)"
proof (induction rules arbitrary: pens)
  case Nil
  then show ?case by simp
next
  case (Cons rule rules)
  from Cons.prems obtain pen pens' where pens: "pens = pen # pens'"
    and pen: "rulePenalty rule assign byId tt = Inr pen"
    and rest: "map (\<lambda>rule. rulePenalty rule assign byId tt) rules = map Inr pens'"
    by (cases pens) auto
  show ?case
    using Cons.IH [OF rest] rulePenalty_hard_threshold [OF pen]
    by (auto simp: pens)
qed

text \<open>
  C8. When \<open>scoreAssignment\<close> returns, every rule has a contribution, \<open>total\<close> is the sum of
  the contributions, and \<open>hardBreaks\<close> is the number of rules that are hard and whose
  contribution reached \<open>HARD_MULT\<close>: the number of hard rules with a positive raw
  penalty, one per rule whatever the size of the penalty, and no soft rule is counted.
\<close>

theorem scoreAssignment_total_hardBreaks:
  assumes "scoreAssignment rm pupils rules assign = Inr sc"
  shows "\<exists>pens.
     map (\<lambda>rule. rulePenalty rule assign (pupilsById pupils) (teacherTiles_of rm)) rules = map Inr pens \<and>
     total sc = sum_list pens \<and>
     hardBreaks sc = length (filter (\<lambda>(rule, pen). hard rule \<and> pen \<ge> HARD_MULT) (zip rules pens)) \<and>
     hardBreaks sc = length (filter (\<lambda>rule. hard rule \<and>
        (\<exists>p. rawPenalty rule assign (pupilsById pupils) (teacherTiles_of rm) = Inr p \<and> 0 < p)) rules)"
proof -
  from assms obtain pens where
    m: "map (\<lambda>rule. rulePenalty rule assign (pupilsById pupils) (teacherTiles_of rm)) rules = map Inr pens"
    and t: "total sc = sum_list pens"
    and h: "hardBreaks sc = length (filter (\<lambda>(rule, pen). hard rule \<and> pen \<ge> HARD_MULT) (zip rules pens))"
    unfolding scoreAssignment_def by (fastforce dest: score_loop_sums)
  show ?thesis
    using m t h hard_count_by_raw [OF m] by (intro exI [of _ pens]) simp
qed

theorem scoreAssignment_total_hardBreaks_witness:
  "scoreAssignment sample_room [pupilA, pupilB] [rule_far, rule_front (Some 3)] assignAB =
     Inr \<lparr>total = 4000003, hardBreaks = 1\<rparr> \<and>
   (\<exists>pens.
     map (\<lambda>rule. rulePenalty rule assignAB (pupilsById [pupilA, pupilB]) (teacherTiles_of sample_room))
       [rule_far, rule_front (Some 3)] = map Inr pens \<and>
     sum_list pens = 4000003 \<and>
     length (filter (\<lambda>(rule, pen). hard rule \<and> pen \<ge> HARD_MULT)
       (zip [rule_far, rule_front (Some 3)] pens)) = 1)"
proof -
  from scoreAssignment_total_hardBreaks [OF sample_score] obtain pens where
    a: "map (\<lambda>rule. rulePenalty rule assignAB (pupilsById [pupilA, pupilB]) (teacherTiles_of sample_room))
       [rule_far, rule_front (Some 3)] = map Inr pens"
    and b: "total \<lparr>total = 4000003, hardBreaks = 1\<rparr> = sum_list pens"
    and c: "hardBreaks \<lparr>total = 4000003, hardBreaks = 1\<rparr> =
       length (filter (\<lambda>(rule, pen). hard rule \<and> pen \<ge> HARD_MULT)
         (zip [rule_far, rule_front (Some 3)] pens))"
    by blast
  have "sum_list pens = 4000003"
    using b by simp
  moreover have "length (filter (\<lambda>(rule, pen). hard rule \<and> pen \<ge> HARD_MULT)
         (zip [rule_far, rule_front (Some 3)] pens)) = 1"
    using c by simp
  ultimately show ?thesis
    using sample_score a by blast
qed

lemma scoreAssignment_returns:
  "list_all (\<lambda>rule. rule_metric rule \<noteq> Some OtherMetric) rules \<Longrightarrow>
   \<exists>sc. scoreAssignment rm pupils rules assign = Inr sc"
  using score_loop_no_error [of rules assign "pupilsById pupils" "teacherTiles_of rm"]
  unfolding scoreAssignment_def
  by (cases "score_loop assign (pupilsById pupils) (teacherTiles_of rm) rules \<lparr>total = 0, hardBreaks = 0\<rparr>") auto

subsection \<open>Shuffling and sorting permute\<close>

lemma rand_index_less: "0 < n \<Longrightarrow> rand_index u n < n"
proof -
  assume n: "0 < n"
  have "unat u < 2 ^ 32"
    using unsigned_less [of u, where 'a = nat] by simp
  then have "unat u * n < 2 ^ 32 * n"
    using n by simp
  then show ?thesis
    unfolding rand_index_def by (simp add: less_mult_imp_div_less mult.commute)
qed

lemma mset_shuffle_from:
  "i < length arr \<Longrightarrow> mset (fst (shuffle_from i arr g)) = mset arr"
proof (induction i arbitrary: arr g)
  case 0
  then show ?case by simp
next
  case (Suc i)
  let ?j = "rand_index (fst (rng_next g)) (Suc i + 1)"
  have j: "?j < length arr"
    using rand_index_less [of "Suc i + 1" "fst (rng_next g)"] Suc.prems by simp
  have "mset (arr[Suc i := arr ! ?j, ?j := arr ! Suc i]) = mset arr"
    using mset_swap [OF j Suc.prems] by simp
  then show ?case
    using Suc.IH [of "arr[Suc i := arr ! ?j, ?j := arr ! Suc i]" "snd (rng_next g)"] Suc.prems
    by (simp add: Let_def)
qed

lemma mset_shuffleInPlace: "mset (fst (shuffleInPlace arr g)) = mset arr"
proof (cases arr)
  case Nil
  then show ?thesis by (simp add: shuffleInPlace_def)
next
  case (Cons x xs)
  then show ?thesis
    unfolding shuffleInPlace_def by (intro mset_shuffle_from) simp
qed

lemma mset_insert_sorted: "mset (insert_sorted cmp x xs) = add_mset x (mset xs)"
  by (induction xs) simp_all

lemma mset_array_sort: "mset (array_sort cmp xs) = mset xs"
  unfolding array_sort_def by (induction xs) (simp_all add: mset_insert_sorted)

lemma mset_row_shuffle: "mset (fst (row_shuffle xs g)) = mset xs"
proof (induction xs g rule: row_shuffle.induct)
  case (1 g)
  then show ?case by simp
next
  case (2 x xs g)
  let ?p0 = "seatPosById x"
  let ?sl = "shuffleInPlace (x # takeWhile (same_row ?p0) xs) g"
  have "mset (fst (row_shuffle (dropWhile (same_row ?p0) xs) (snd ?sl))) =
        mset (dropWhile (same_row ?p0) xs)"
    using 2 by simp
  moreover have "mset (takeWhile (same_row ?p0) xs) + mset (dropWhile (same_row ?p0) xs) = mset xs"
    by (metis mset_append takeWhile_dropWhile_id)
  ultimately show ?case
    by (simp add: Let_def mset_shuffleInPlace)
qed


lemma set_shuffleInPlace: "set (fst (shuffleInPlace arr g)) = set arr"
  using mset_shuffleInPlace [of arr g] by (metis set_mset_mset)

lemma distinct_shuffleInPlace: "distinct (fst (shuffleInPlace arr g)) = distinct arr"
  using mset_shuffleInPlace [of arr g] by (metis mset_eq_imp_distinct_iff)

lemma length_shuffleInPlace: "length (fst (shuffleInPlace arr g)) = length arr"
  using mset_shuffleInPlace [of arr g] by (metis size_mset)

lemma inj_assign_upd:
  assumes "inj_on a (dom a)" "s \<notin> ran a"
  shows "inj_on (a(k \<mapsto> s)) (dom (a(k \<mapsto> s)))"
  using assms unfolding inj_on_def ran_def dom_def by (auto split: if_splits)

lemma inj_assign_del:
  assumes "inj_on a (dom a)"
  shows "inj_on (a(k := None)) (dom (a(k := None)))"
  using assms unfolding inj_on_def dom_def by (auto split: if_splits)

lemma ran_upd_subset: "ran (a(k \<mapsto> s)) \<subseteq> insert s (ran a)"
  unfolding ran_def by auto

lemma ran_del_subset: "ran (a(k := None)) \<subseteq> ran a"
  unfolding ran_def by auto

lemma set_set_add [simp]: "set (set_add k xs) = insert k (set xs)"
  by (auto simp: set_add_def)

lemma build_fixed_inj:
  "build_fixed rm ps a used = Inr (a', used') \<Longrightarrow> inj_on a (dom a) \<Longrightarrow> ran a \<subseteq> set used \<Longrightarrow>
   inj_on a' (dom a') \<and> ran a' \<subseteq> set used'"
proof (induction ps arbitrary: a used)
  case Nil
  then show ?case by simp
next
  case (Cons p ps)
  have step: "inj_on (a(pid p \<mapsto> sid)) (dom (a(pid p \<mapsto> sid))) \<and>
              ran (a(pid p \<mapsto> sid)) \<subseteq> set (set_add sid used)" if "sid \<notin> set used" for sid
    using that Cons.prems(2,3) ran_upd_subset [of a "pid p" sid]
    by (intro conjI inj_assign_upd) auto
  show ?case
  proof (cases "fixed p")
    case None
    then show ?thesis using Cons by simp
  next
    case (Some f)
    show ?thesis
    proof (cases "truthy (fixed_seat f)")
      case True
      with Some Cons.prems(1) have
        "the (fixed_seat f) \<notin> set used"
        "build_fixed rm ps (a(pid p \<mapsto> the (fixed_seat f))) (set_add (the (fixed_seat f)) used) = Inr (a', used')"
        by (auto simp: Let_def split: if_splits)
      then show ?thesis using Cons.IH step by blast
    next
      case False
      show ?thesis
      proof (cases "fixed_r f \<noteq> None \<and> fixed_c f \<noteq> None")
        case True
        with Some False Cons.prems(1) obtain sid where
          "sid \<notin> set used"
          "build_fixed rm ps (a(pid p \<mapsto> sid)) (set_add sid used) = Inr (a', used')"
          by (auto split: sum.splits if_splits)
        then show ?thesis using Cons.IH step by blast
      next
        case F2: False
        with Some False Cons.prems(1) have "build_fixed rm ps a used = Inr (a', used')"
          by auto
        then show ?thesis using Cons.IH Cons.prems by blast
      qed
    qed
  qed
qed

lemma assign_seq_inj:
  "inj_on a (dom a) \<Longrightarrow> distinct ss \<Longrightarrow> set ss \<inter> ran a = {} \<Longrightarrow>
   inj_on (assign_seq a ids ss) (dom (assign_seq a ids ss)) \<and>
   ran (assign_seq a ids ss) \<subseteq> ran a \<union> set (take (length ids) ss)"
proof (induction ids arbitrary: a ss)
  case Nil
  then show ?case by simp
next
  case (Cons p ps)
  show ?case
  proof (cases ss)
    case none: Nil
    let ?a = "a(p := None)"
    have i: "inj_on ?a (dom ?a)"
      using Cons.prems(1) by (rule inj_assign_del)
    have "inj_on (assign_seq ?a ps []) (dom (assign_seq ?a ps [])) \<and>
          ran (assign_seq ?a ps []) \<subseteq> ran ?a \<union> set (take (length ps) [])"
      by (rule Cons.IH [OF i]) simp_all
    moreover have "ran ?a \<subseteq> ran a"
      by (rule ran_del_subset)
    moreover have "assign_seq a (p # ps) ss = assign_seq ?a ps []"
      using none by simp
    ultimately show ?thesis
      using none by auto
  next
    case more: (Cons s ss')
    let ?a = "a(p \<mapsto> s)"
    have s: "s \<notin> ran a" "s \<notin> set ss'" "distinct ss'"
      using Cons.prems(2,3) more by auto
    have i: "inj_on ?a (dom ?a)"
      using Cons.prems(1) s(1) by (rule inj_assign_upd)
    have r: "ran ?a \<subseteq> insert s (ran a)"
      by (rule ran_upd_subset)
    have d: "set ss' \<inter> ran ?a = {}"
      using r s(2) Cons.prems(3) more by auto
    have "inj_on (assign_seq ?a ps ss') (dom (assign_seq ?a ps ss')) \<and>
          ran (assign_seq ?a ps ss') \<subseteq> ran ?a \<union> set (take (length ps) ss')"
      by (rule Cons.IH [OF i s(3) d])
    moreover have "assign_seq a (p # ps) ss = assign_seq ?a ps ss'"
      using more by simp
    ultimately show ?thesis
      using more r by auto
  qed
qed

lemma buildInitialAssignment_injective:
  assumes "distinct (allSeatIds rm)" "buildInitialAssignment rm pupils seed = Inr a"
  shows "inj_on a (dom a)"
proof -
  from assms(2) obtain a0 used where bf: "build_fixed rm pupils Map.empty [] = Inr (a0, used)"
    by (auto simp: buildInitialAssignment_def Let_def split: sum.splits)
  define free where "free = filter (\<lambda>s. s \<notin> set used) (allSeatIds rm)"
  define rem where "rem = filter (\<lambda>p. \<not> obj_truthy a0 (pid p)) pupils"
  define tagged where "tagged = map pid (filter has_tags rem)"
  define untagged where "untagged = map pid (filter (\<lambda>p. \<not> has_tags p) rem)"
  define sh where "sh = fst (shuffleInPlace free (mulberry32 seed))"
  define a1 where "a1 = assign_seq a0 tagged sh"
  define f2 where "f2 = fst (row_shuffle (array_sort seat_cmp (drop (length tagged) sh))
                              (snd (shuffleInPlace free (mulberry32 seed))))"
  have a: "a = assign_seq a1 untagged f2"
    using assms(2) bf
    by (auto simp: buildInitialAssignment_def Let_def free_def rem_def tagged_def untagged_def
        sh_def a1_def f2_def split: if_splits)
  have i0: "inj_on a0 (dom a0)" "ran a0 \<subseteq> set used"
    using build_fixed_inj [OF bf] by simp_all
  have sh: "distinct sh" "set sh \<inter> ran a0 = {}"
    using assms(1) i0(2)
    by (auto simp: sh_def distinct_shuffleInPlace set_shuffleInPlace free_def)
  have i1: "inj_on a1 (dom a1)" "ran a1 \<subseteq> ran a0 \<union> set (take (length tagged) sh)"
    using assign_seq_inj [OF i0(1) sh] by (simp_all add: a1_def)
  have "mset f2 = mset (drop (length tagged) sh)"
    by (simp add: f2_def mset_row_shuffle mset_array_sort)
  then have f2: "set f2 = set (drop (length tagged) sh)" "distinct f2 = distinct (drop (length tagged) sh)"
    by (metis set_mset_mset, metis mset_eq_imp_distinct_iff)
  have "set (take (length tagged) sh) \<inter> set (drop (length tagged) sh) = {}"
    using sh(1) by (simp add: set_take_disj_set_drop_if_distinct)
  moreover have "set (drop (length tagged) sh) \<subseteq> set sh"
    by (rule set_drop_subset)
  ultimately have "set f2 \<inter> ran a1 = {}"
    using i1(2) sh(2) f2(1) by blast
  moreover have "distinct f2"
    using f2(2) sh(1) by simp
  ultimately show ?thesis
    using assign_seq_inj [OF i1(1)] a by simp
qed

lemma repair_clean_inj:
  "repair_clean sids fx a ps clean used = Inr (c', u') \<Longrightarrow> inj_on clean (dom clean) \<Longrightarrow>
   ran clean \<subseteq> set used \<Longrightarrow> inj_on c' (dom c') \<and> ran c' \<subseteq> set u'"
proof (induction ps arbitrary: clean used)
  case Nil
  then show ?case by simp
next
  case (Cons p ps)
  have step: "inj_on (clean(pid p \<mapsto> sid)) (dom (clean(pid p \<mapsto> sid))) \<and>
              ran (clean(pid p \<mapsto> sid)) \<subseteq> set (set_add sid used)" if "sid \<notin> set used" for sid
    using that Cons.prems(2,3) ran_upd_subset [of clean "pid p" sid]
    by (intro conjI inj_assign_upd) auto
  show ?case
  proof (cases "fx (pid p)")
    case (Some sid)
    with Cons.prems(1) have "sid \<notin> set used"
      "repair_clean sids fx a ps (clean(pid p \<mapsto> sid)) (set_add sid used) = Inr (c', u')"
      by (auto split: if_splits)
    then show ?thesis using Cons.IH step by blast
  next
    case None
    show ?thesis
    proof (cases "truthy (a (pid p)) \<and> the (a (pid p)) \<in> set sids \<and> the (a (pid p)) \<notin> set used")
      case True
      with None Cons.prems(1) have
        "repair_clean sids fx a ps (clean(pid p \<mapsto> the (a (pid p)))) (set_add (the (a (pid p))) used) = Inr (c', u')"
        by (simp add: Let_def)
      then show ?thesis using Cons.IH step True by blast
    next
      case False
      with None Cons.prems(1) have "repair_clean sids fx a ps clean used = Inr (c', u')"
        by (auto simp: Let_def)
      then show ?thesis using Cons.IH Cons.prems by blast
    qed
  qed
qed

lemma repair_fill_inj:
  "repair_fill ps free clean = Inr c \<Longrightarrow> inj_on clean (dom clean) \<Longrightarrow> distinct free \<Longrightarrow>
   set free \<inter> ran clean = {} \<Longrightarrow> inj_on c (dom c)"
proof (induction ps arbitrary: free clean)
  case Nil
  then show ?case by simp
next
  case (Cons p ps)
  show ?case
  proof (cases "obj_truthy clean (pid p)")
    case True
    with Cons.prems(1) have "repair_fill ps free clean = Inr c" by simp
    then show ?thesis using Cons.IH Cons.prems by blast
  next
    case False
    with Cons.prems(1) obtain s ss where f: "free = s # ss"
      and r: "repair_fill ps ss (clean(pid p \<mapsto> s)) = Inr c"
      by (auto split: list.splits)
    have s: "s \<notin> ran clean" "s \<notin> set ss" "distinct ss"
      using Cons.prems(3,4) f by auto
    have i: "inj_on (clean(pid p \<mapsto> s)) (dom (clean(pid p \<mapsto> s)))"
      using Cons.prems(2) s(1) by (rule inj_assign_upd)
    have d: "set ss \<inter> ran (clean(pid p \<mapsto> s)) = {}"
      using ran_upd_subset [of clean "pid p" s] s(2) Cons.prems(4) f by auto
    show ?thesis
      by (rule Cons.IH [OF r i s(3) d])
  qed
qed

lemma repairAssignment_injective:
  assumes "distinct (allSeatIds rm)" "repairAssignment rm pupils a seed = Inr c"
  shows "inj_on c (dom c)"
proof -
  from assms(2) obtain fx clean used where
    rc: "repair_clean (allSeatIds rm) fx a pupils Map.empty [] = Inr (clean, used)"
    and rf: "repair_fill pupils
               (fst (shuffleInPlace (filter (\<lambda>s. s \<notin> set used) (allSeatIds rm)) (mulberry32 seed)))
               clean = Inr c"
    by (auto simp: repairAssignment_def Let_def split: sum.splits)
  have i: "inj_on clean (dom clean)" "ran clean \<subseteq> set used"
    using repair_clean_inj [OF rc] by simp_all
  show ?thesis
    using repair_fill_inj [OF rf i(1)] assms(1) i(2)
    by (auto simp: distinct_shuffleInPlace set_shuffleInPlace)
qed

subsection \<open>Fixed pupils\<close>


lemma map_has_map_of: "map_has k es \<longleftrightarrow> map_of es k \<noteq> None"
  by (simp add: map_has_def map_of_eq_None_iff)


lemma build_fixed_places:
  "build_fixed rm ps a used = Inr (a', used') \<Longrightarrow> distinct (map pid ps) \<Longrightarrow>
   (\<forall>p\<in>set ps. \<forall>sid. resolved_seat rm p = Some sid \<longrightarrow> a' (pid p) = Some sid) \<and>
   (\<forall>k. k \<notin> pid ` set ps \<longrightarrow> a' k = a k)"
proof (induction ps arbitrary: a used)
  case Nil
  then show ?case by simp
next
  case (Cons p ps)
  have d: "distinct (map pid ps)" "pid p \<notin> pid ` set ps"
    using Cons.prems(2) by auto
  consider (skip) "resolved_seat rm p = None" "build_fixed rm ps a used = Inr (a', used')"
    | (place) sid where "resolved_seat rm p = Some sid"
        "build_fixed rm ps (a(pid p \<mapsto> sid)) (set_add sid used) = Inr (a', used')"
  proof (cases "fixed p")
    case None
    then show ?thesis using Cons.prems(1) that(1) by (simp add: resolved_seat_def)
  next
    case (Some f)
    show ?thesis
    proof (cases "truthy (fixed_seat f)")
      case True
      then have "resolved_seat rm p = Some (the (fixed_seat f))"
        using Some by (auto simp: resolved_seat_def truthy_def split: option.splits)
      moreover have "build_fixed rm ps (a(pid p \<mapsto> the (fixed_seat f))) (set_add (the (fixed_seat f)) used) = Inr (a', used')"
        using Some True Cons.prems(1) by (auto simp: Let_def split: if_splits)
      ultimately show ?thesis using that(2) by blast
    next
      case False
      show ?thesis
      proof (cases "fixed_r f \<noteq> None \<and> fixed_c f \<noteq> None")
        case True
        let ?k = "keyRC (the (fixed_r f)) (the (fixed_c f))"
        from Some False True Cons.prems(1) have h: "map_has ?k (seats rm)"
          and b: "build_fixed rm ps (a(pid p \<mapsto> the (map_of (seats rm) ?k)))
                    (set_add (the (map_of (seats rm) ?k)) used) = Inr (a', used')"
          by (auto simp: rcToSeatId_def Let_def split: if_splits sum.splits)
        have "resolved_seat rm p = Some (the (map_of (seats rm) ?k))"
          using Some False True h by (auto simp: resolved_seat_def map_has_map_of)
        then show ?thesis using that(2) b by blast
      next
        case F2: False
        then have "resolved_seat rm p = None"
          using Some False by (auto simp: resolved_seat_def)
        moreover have "build_fixed rm ps a used = Inr (a', used')"
          using Some False F2 Cons.prems(1) by auto
        ultimately show ?thesis using that(1) by blast
      qed
    qed
  qed
  then show ?case
  proof cases
    case skip
    from Cons.IH [OF skip(2) d(1)] show ?thesis
      using skip(1) d(2) by auto
  next
    case (place sid)
    from Cons.IH [OF place(2) d(1)] show ?thesis
      using place(1) d(2) by auto
  qed
qed


lemma repair_fixed_map:
  "repair_fixed rm ps fx = Inr fx' \<Longrightarrow> distinct (map pid ps) \<Longrightarrow>
   (\<forall>p\<in>set ps. fx' (pid p) = (case resolved_seat rm p of None \<Rightarrow> fx (pid p) | Some s \<Rightarrow> Some s)) \<and>
   (\<forall>k. k \<notin> pid ` set ps \<longrightarrow> fx' k = fx k)"
proof (induction ps arbitrary: fx)
  case Nil
  then show ?case by simp
next
  case (Cons p ps)
  have d: "distinct (map pid ps)" "pid p \<notin> pid ` set ps" "\<forall>q\<in>set ps. pid q \<noteq> pid p"
    using Cons.prems(2) by (auto simp: image_iff)
  consider (skip) "resolved_seat rm p = None" "repair_fixed rm ps fx = Inr fx'"
    | (place) sid where "resolved_seat rm p = Some sid"
        "repair_fixed rm ps (fx(pid p \<mapsto> sid)) = Inr fx'"
  proof (cases "fixed p")
    case None
    then show ?thesis using Cons.prems(1) that(1) by (simp add: resolved_seat_def)
  next
    case (Some f)
    show ?thesis
    proof (cases "truthy (fixed_seat f)")
      case True
      then have "resolved_seat rm p = Some (the (fixed_seat f))"
        using Some by (auto simp: resolved_seat_def truthy_def split: option.splits)
      moreover have "repair_fixed rm ps (fx(pid p \<mapsto> the (fixed_seat f))) = Inr fx'"
        using Some True Cons.prems(1) by auto
      ultimately show ?thesis using that(2) by blast
    next
      case False
      show ?thesis
      proof (cases "fixed_r f \<noteq> None \<and> fixed_c f \<noteq> None")
        case True
        let ?k = "keyRC (the (fixed_r f)) (the (fixed_c f))"
        from Some False True Cons.prems(1) have h: "map_has ?k (seats rm)"
          and b: "repair_fixed rm ps (fx(pid p \<mapsto> the (map_of (seats rm) ?k))) = Inr fx'"
          by (auto simp: Let_def split: if_splits)
        have "resolved_seat rm p = Some (the (map_of (seats rm) ?k))"
          using Some False True h by (auto simp: resolved_seat_def map_has_map_of)
        then show ?thesis using that(2) b by blast
      next
        case F2: False
        then have "resolved_seat rm p = None"
          using Some False by (auto simp: resolved_seat_def)
        moreover have "repair_fixed rm ps fx = Inr fx'"
          using Some False F2 Cons.prems(1) by auto
        ultimately show ?thesis using that(1) by blast
      qed
    qed
  qed
  then show ?case
  proof cases
    case skip
    from Cons.IH [OF skip(2) d(1)] show ?thesis
      using skip(1) d(2) by auto
  next
    case (place sid)
    from Cons.IH [OF place(2) d(1)] show ?thesis
      using place(1) d(2,3) by (auto split: option.splits)
  qed
qed

lemma repair_fixed_resolved:
  assumes "repair_fixed rm pupils Map.empty = Inr fx" "distinct (map pid pupils)" "p \<in> set pupils"
  shows "fx (pid p) = resolved_seat rm p"
  using repair_fixed_map [OF assms(1,2)] assms(3) by (auto split: option.splits)

text \<open>One step of the second loop of the repair routine, in its three outcomes.\<close>

lemma repair_clean_step:
  assumes "repair_clean sids fx a (p # ps) clean used = Inr (c', u')"
  obtains (fixed) sid where "fx (pid p) = Some sid" "sid \<notin> set used"
      "repair_clean sids fx a ps (clean(pid p \<mapsto> sid)) (set_add sid used) = Inr (c', u')"
  | (keep) s where "fx (pid p) = None" "a (pid p) = Some s" "s \<noteq> []" "s \<in> set sids" "s \<notin> set used"
      "repair_clean sids fx a ps (clean(pid p \<mapsto> s)) (set_add s used) = Inr (c', u')"
  | (drop) "fx (pid p) = None"
      "\<not> (truthy (a (pid p)) \<and> the (a (pid p)) \<in> set sids \<and> the (a (pid p)) \<notin> set used)"
      "repair_clean sids fx a ps clean used = Inr (c', u')"
proof (cases "fx (pid p)")
  case (Some sid)
  with assms have "sid \<notin> set used"
    "repair_clean sids fx a ps (clean(pid p \<mapsto> sid)) (set_add sid used) = Inr (c', u')"
    by (auto split: if_splits)
  then show ?thesis using Some fixed by blast
next
  case None
  show ?thesis
  proof (cases "truthy (a (pid p)) \<and> the (a (pid p)) \<in> set sids \<and> the (a (pid p)) \<notin> set used")
    case True
    then obtain s where s: "a (pid p) = Some s" "s \<noteq> []"
      by (auto simp: truthy_def split: option.splits)
    with True None assms have
      "repair_clean sids fx a ps (clean(pid p \<mapsto> s)) (set_add s used) = Inr (c', u')"
      by (simp add: Let_def)
    then show ?thesis using keep [of s] None s True by simp
  next
    case False
    with None assms have "repair_clean sids fx a ps clean used = Inr (c', u')"
      by (auto simp: Let_def)
    then show ?thesis using drop None False by blast
  qed
qed

lemma repair_clean_facts:
  assumes "repair_clean sids fx a ps clean used = Inr (c', u')" "distinct (map pid ps)"
    and "\<forall>p\<in>set ps. clean (pid p) = None"
  shows "(\<forall>k. k \<notin> pid ` set ps \<longrightarrow> c' k = clean k) \<and>
         (\<forall>p\<in>set ps. \<forall>sid. fx (pid p) = Some sid \<longrightarrow> c' (pid p) = Some sid \<and> sid \<notin> set used) \<and>
         (\<forall>p\<in>set ps. \<forall>s. fx (pid p) = None \<longrightarrow> c' (pid p) = Some s \<longrightarrow>
              a (pid p) = Some s \<and> s \<noteq> [] \<and> s \<in> set sids \<and> s \<notin> set used) \<and>
         set u' = set used \<union> {s. \<exists>p\<in>set ps. c' (pid p) = Some s}"
  using assms
proof (induction ps arbitrary: clean used)
  case Nil
  then show ?case by simp
next
  case (Cons p ps)
  have d: "distinct (map pid ps)" "pid p \<notin> pid ` set ps" "\<forall>q\<in>set ps. pid q \<noteq> pid p"
    using Cons.prems(2) by (auto simp: image_iff)
  have n: "\<forall>q\<in>set ps. clean (pid q) = None" "clean (pid p) = None"
    using Cons.prems(3) by auto
  from Cons.prems(1) show ?case
  proof (cases rule: repair_clean_step)
    case (fixed sid)
    have n': "\<forall>q\<in>set ps. (clean(pid p \<mapsto> sid)) (pid q) = None"
      using n(1) d(3) by auto
    note ih = Cons.IH [OF fixed(3) d(1) n']
    have cp: "c' (pid p) = Some sid"
      using ih d(2) by simp
    show ?thesis
    proof (intro conjI)
      show "\<forall>k. k \<notin> pid ` set (p # ps) \<longrightarrow> c' k = clean k"
        using ih by auto
      show "\<forall>q\<in>set (p # ps). \<forall>sid. fx (pid q) = Some sid \<longrightarrow> c' (pid q) = Some sid \<and> sid \<notin> set used"
        using ih cp fixed(1,2) by auto
      show "\<forall>q\<in>set (p # ps). \<forall>s. fx (pid q) = None \<longrightarrow> c' (pid q) = Some s \<longrightarrow>
              a (pid q) = Some s \<and> s \<noteq> [] \<and> s \<in> set sids \<and> s \<notin> set used"
        using ih fixed(1) by auto
      show "set u' = set used \<union> {s. \<exists>q\<in>set (p # ps). c' (pid q) = Some s}"
        using ih cp by auto
    qed
  next
    case (keep s)
    have n': "\<forall>q\<in>set ps. (clean(pid p \<mapsto> s)) (pid q) = None"
      using n(1) d(3) by auto
    note ih = Cons.IH [OF keep(6) d(1) n']
    have cp: "c' (pid p) = Some s"
      using ih d(2) by simp
    show ?thesis
    proof (intro conjI)
      show "\<forall>k. k \<notin> pid ` set (p # ps) \<longrightarrow> c' k = clean k"
        using ih by auto
      show "\<forall>q\<in>set (p # ps). \<forall>sid. fx (pid q) = Some sid \<longrightarrow> c' (pid q) = Some sid \<and> sid \<notin> set used"
        using ih keep(1) by auto
      show "\<forall>q\<in>set (p # ps). \<forall>s. fx (pid q) = None \<longrightarrow> c' (pid q) = Some s \<longrightarrow>
              a (pid q) = Some s \<and> s \<noteq> [] \<and> s \<in> set sids \<and> s \<notin> set used"
        using ih cp keep(2-5) by auto
      show "set u' = set used \<union> {s. \<exists>q\<in>set (p # ps). c' (pid q) = Some s}"
        using ih cp by auto
    qed
  next
    case drop
    note ih = Cons.IH [OF drop(3) d(1) n(1)]
    have cp: "c' (pid p) = None"
      using ih d(2) n(2) by simp
    show ?thesis
    proof (intro conjI)
      show "\<forall>k. k \<notin> pid ` set (p # ps) \<longrightarrow> c' k = clean k"
        using ih by auto
      show "\<forall>q\<in>set (p # ps). \<forall>sid. fx (pid q) = Some sid \<longrightarrow> c' (pid q) = Some sid \<and> sid \<notin> set used"
        using ih drop(1) by auto
      show "\<forall>q\<in>set (p # ps). \<forall>s. fx (pid q) = None \<longrightarrow> c' (pid q) = Some s \<longrightarrow>
              a (pid q) = Some s \<and> s \<noteq> [] \<and> s \<in> set sids \<and> s \<notin> set used"
        using ih cp by auto
      show "set u' = set used \<union> {s. \<exists>q\<in>set (p # ps). c' (pid q) = Some s}"
        using ih cp by auto
    qed
  qed
qed




subsection \<open>Repair of a valid assignment\<close>












subsection \<open>Failure conditions of the repair routine\<close>

text \<open>
  C3. The claim is that \<open>repairAssignment\<close> fails on the same fixed-pupil conditions as
  the builder, among them a fixed seat identifier that is not in the room. The builder
  tests \<open>seats.includes(sid)\<close>; the first loop of \<open>repairAssignment\<close> stores \<open>p.fixed.seat\<close>
  without that test. With one seat \<open>S00_00\<close> and a pupil fixed to \<open>S09_09\<close>, the builder
  raises \<open>fixed seat S09_09 not in map\<close> and the repair routine returns the pupil at
  \<open>S09_09\<close>. In the other direction, \<open>used\<close> does not hold the fixed seats before the
  second loop starts: when a pupil that is not fixed comes first in the list and sits
  on the seat of a fixed pupil, the repair routine raises \<open>seat S00_02 fixed twice\<close> for
  a room and pupil list that the builder accepts. The two other conditions, a fixed
  coordinate that is not a seat and two fixed pupils on one seat, make both routines fail
  (lemmas \<open>fixed_coordinate_not_seat_fails\<close> and \<open>same_fixed_seat_fails\<close>).
\<close>

theorem repair_accepts_unknown_fixed_seat:
  "buildInitialAssignment one_seat_room [pupilG] 1 = Inl (FixedSeatNotInMap ''S09_09'') \<and>
   repairAssignment one_seat_room [pupilG] Map.empty 1 = Inr [''G'' \<mapsto> ''S09_09''] \<and>
   (\<exists>a. buildInitialAssignment sample_room [pupilA, pupilF] 1 = Inr a) \<and>
   repairAssignment sample_room [pupilA, pupilF] [''A'' \<mapsto> ''S00_02''] 1 = Inl (FixedTwice ''S00_02'')"
proof (intro conjI)
  show "buildInitialAssignment one_seat_room [pupilG] 1 = Inl (FixedSeatNotInMap ''S09_09'')"
    by (simp add: buildInitialAssignment_def one_seat_room_def pupilG_def truthy_def allSeatIds_def)
  show "repairAssignment one_seat_room [pupilG] Map.empty 1 = Inr [''G'' \<mapsto> ''S09_09'']"
    by (simp add: repairAssignment_def one_seat_room_def pupilG_def truthy_def allSeatIds_def
        obj_truthy_def set_add_def shuffleInPlace_def)
  show "\<exists>a. buildInitialAssignment sample_room [pupilA, pupilF] 1 = Inr a"
    by (simp add: buildInitialAssignment_def sample_room_def pupilA_def pupilF_def truthy_def
        obj_truthy_def inherited_key_def inherited_names_def
        allSeatIds_def set_add_def rcToSeatId_def map_has_def keyRC_def has_tags_def Let_def)
  show "repairAssignment sample_room [pupilA, pupilF] [''A'' \<mapsto> ''S00_02''] 1 = Inl (FixedTwice ''S00_02'')"
    by (simp add: repairAssignment_def sample_room_def pupilA_def pupilF_def truthy_def
        allSeatIds_def set_add_def map_has_def keyRC_def)
qed

subsection \<open>Input validation\<close>

lemma length_set_add: "k \<notin> set xs \<Longrightarrow> length (set_add k xs) = Suc (length xs)"
  by (simp add: set_add_def)

lemma distinct_set_add: "distinct xs \<Longrightarrow> distinct (set_add k xs)"
  by (simp add: set_add_def)

lemma rcToSeatId_in_seats: "rcToSeatId rm r c = Inr sid \<Longrightarrow> sid \<in> set (allSeatIds rm)"
proof -
  assume a: "rcToSeatId rm r c = Inr sid"
  then have "map_has (keyRC r c) (seats rm)" and s: "sid = the (map_of (seats rm) (keyRC r c))"
    by (auto simp: rcToSeatId_def Let_def split: if_splits)
  then obtain v where v: "map_of (seats rm) (keyRC r c) = Some v"
    by (auto simp: map_has_map_of)
  then have "v \<in> snd ` set (seats rm)"
    by (metis map_of_SomeD snd_conv image_eqI)
  then show ?thesis using s v by (simp add: allSeatIds_def)
qed

lemma build_fixed_count:
  "build_fixed rm ps a used = Inr (a', used') \<Longrightarrow> distinct used \<Longrightarrow>
   set used \<subseteq> set (allSeatIds rm) \<Longrightarrow> finite (dom a) \<Longrightarrow> card (dom a) \<le> length used \<Longrightarrow>
   distinct used' \<and> set used' \<subseteq> set (allSeatIds rm) \<and> finite (dom a') \<and>
   card (dom a') \<le> length used'"
proof (induction ps arbitrary: a used)
  case Nil
  then show ?case by simp
next
  case (Cons p ps)
  have step: "distinct (set_add sid used) \<and> set (set_add sid used) \<subseteq> set (allSeatIds rm) \<and>
      finite (dom (a(pid p \<mapsto> sid))) \<and> card (dom (a(pid p \<mapsto> sid))) \<le> length (set_add sid used)"
    if "sid \<notin> set used" "sid \<in> set (allSeatIds rm)" for sid
  proof -
    have "card (dom (a(pid p \<mapsto> sid))) \<le> Suc (card (dom a))"
      using Cons.prems(4) by (simp add: card_insert_if)
    then show ?thesis
      using that Cons.prems(2-5) by (simp add: length_set_add distinct_set_add)
  qed
  show ?case
  proof (cases "fixed p")
    case None
    then show ?thesis using Cons by simp
  next
    case (Some f)
    show ?thesis
    proof (cases "truthy (fixed_seat f)")
      case True
      with Some Cons.prems(1) have
        "the (fixed_seat f) \<notin> set used" "the (fixed_seat f) \<in> set (allSeatIds rm)"
        "build_fixed rm ps (a(pid p \<mapsto> the (fixed_seat f))) (set_add (the (fixed_seat f)) used) = Inr (a', used')"
        by (auto simp: Let_def split: if_splits)
      then show ?thesis using Cons.IH step by blast
    next
      case False
      show ?thesis
      proof (cases "fixed_r f \<noteq> None \<and> fixed_c f \<noteq> None")
        case True
        with Some False Cons.prems(1) obtain sid where
          "rcToSeatId rm (the (fixed_r f)) (the (fixed_c f)) = Inr sid" "sid \<notin> set used"
          "build_fixed rm ps (a(pid p \<mapsto> sid)) (set_add sid used) = Inr (a', used')"
          by (auto split: sum.splits if_splits)
        then show ?thesis using Cons.IH step rcToSeatId_in_seats by blast
      next
        case F2: False
        with Some False Cons.prems(1) have "build_fixed rm ps a used = Inr (a', used')"
          by auto
        then show ?thesis using Cons.IH Cons.prems by blast
      qed
    qed
  qed
qed

lemma free_seats_bound:
  assumes "distinct us" "set us \<subseteq> set xs"
  shows "length (filter (\<lambda>s. s \<notin> set us) xs) + length us \<le> length xs"
proof -
  have "set (filter (\<lambda>s. s \<in> set us) xs) = set us"
    using assms(2) by auto
  then have "card (set us) \<le> length (filter (\<lambda>s. s \<in> set us) xs)"
    by (metis card_length)
  then have "length us \<le> length (filter (\<lambda>s. s \<in> set us) xs)"
    using assms(1) by (simp add: distinct_card)
  moreover have "length (filter (\<lambda>s. s \<in> set us) xs) + length (filter (\<lambda>s. s \<notin> set us) xs) = length xs"
    using sum_length_filter_compl [of "\<lambda>s. s \<in> set us" xs] by simp
  ultimately show ?thesis by linarith
qed

lemma placed_pupils_bound:
  assumes "distinct (map pid ps)" "finite (dom a)"
  shows "length (filter (\<lambda>p. pid p \<in> dom a) ps) \<le> card (dom a)"
proof -
  have "distinct (map pid (filter (\<lambda>p. pid p \<in> dom a) ps))"
    using assms(1) by (rule distinct_map_filter)
  then have "length (filter (\<lambda>p. pid p \<in> dom a) ps) = card (set (map pid (filter (\<lambda>p. pid p \<in> dom a) ps)))"
    by (metis distinct_card length_map)
  also have "\<dots> \<le> card (dom a)"
    using assms(2) by (intro card_mono) auto
  finally show ?thesis .
qed

lemma remaining_pupils_bound:
  assumes "distinct (map pid ps)" "finite (dom a)" "plain_ids ps"
  shows "length ps \<le> length (filter (\<lambda>p. \<not> obj_truthy a (pid p)) ps) + card (dom a)"
proof -
  have "length (filter (\<lambda>p. pid p \<notin> dom a) ps) \<le> length (filter (\<lambda>p. \<not> obj_truthy a (pid p)) ps)"
    using assms(3)
  proof (induction ps)
    case Nil
    then show ?case by simp
  next
    case (Cons p ps)
    have "\<not> inherited_key (pid p)" "plain_ids ps"
      using Cons.prems by (simp_all add: plain_ids_def)
    moreover have "pid p \<notin> dom a \<Longrightarrow> \<not> inherited_key (pid p) \<Longrightarrow> \<not> obj_truthy a (pid p)"
      by (auto simp: obj_truthy_def dom_def)
    ultimately show ?case using Cons.IH by auto
  qed
  moreover have "length (filter (\<lambda>p. pid p \<in> dom a) ps) + length (filter (\<lambda>p. pid p \<notin> dom a) ps) = length ps"
    using sum_length_filter_compl [of "\<lambda>p. pid p \<in> dom a" ps] by simp
  ultimately show ?thesis
    using placed_pupils_bound [OF assms(1,2)] by linarith
qed

lemma buildInitialAssignment_capacity:
  assumes "distinct (map pid pupils)" "length pupils > length (allSeatIds rm)" "plain_ids pupils"
  shows "\<exists>e. buildInitialAssignment rm pupils seed = Inl e"
proof (cases "build_fixed rm pupils Map.empty []")
  case (Inl e)
  then show ?thesis by (simp add: buildInitialAssignment_def)
next
  case (Inr r)
  obtain a0 used where r: "r = (a0, used)" by (cases r)
  have bf: "build_fixed rm pupils Map.empty [] = Inr (a0, used)"
    using Inr r by simp
  have c: "distinct used" "set used \<subseteq> set (allSeatIds rm)" "finite (dom a0)" "card (dom a0) \<le> length used"
    using build_fixed_count [OF bf] by simp_all
  define rem where "rem = filter (\<lambda>p. \<not> obj_truthy a0 (pid p)) pupils"
  define free where "free = filter (\<lambda>s. s \<notin> set used) (allSeatIds rm)"
  have "length free + length used \<le> length (allSeatIds rm)"
    unfolding free_def using c(1,2) by (rule free_seats_bound)
  moreover have "length pupils \<le> length rem + card (dom a0)"
    unfolding rem_def using assms(1) c(3) assms(3) by (rule remaining_pupils_bound)
  ultimately have "length free < length rem"
    using assms(2) c(4) by linarith
  moreover have "length (filter has_tags rem) + length (filter (\<lambda>p. \<not> has_tags p) rem) = length rem"
    by (rule sum_length_filter_compl)
  ultimately have "length (map pid (filter has_tags rem)) + length (map pid (filter (\<lambda>p. \<not> has_tags p) rem))
      > length free"
    by simp
  then show ?thesis
    using bf unfolding buildInitialAssignment_def Let_def rem_def free_def by simp
qed

lemma build_fixed_no_seats:
  "allSeatIds rm = [] \<Longrightarrow> build_fixed rm ps a used = Inr (a', used') \<Longrightarrow> a' = a \<and> used' = used"
proof (induction ps)
  case Nil
  then show ?case by simp
next
  case (Cons p ps)
  have n: "rcToSeatId rm r c \<noteq> Inr sid" for r c sid
    using rcToSeatId_in_seats [of rm r c sid] Cons.prems(1) by auto
  show ?case
  proof (cases "fixed p")
    case None
    then show ?thesis using Cons by simp
  next
    case (Some f)
    then show ?thesis
      using Cons n by (auto simp: Let_def split: if_splits sum.splits)
  qed
qed

lemma buildInitialAssignment_no_seats:
  assumes "pupils \<noteq> []" "allSeatIds rm = []" "plain_ids pupils"
  shows "\<exists>e. buildInitialAssignment rm pupils seed = Inl e"
proof (cases "build_fixed rm pupils Map.empty []")
  case (Inl e)
  then show ?thesis by (simp add: buildInitialAssignment_def)
next
  case (Inr r)
  obtain a0 used where r: "r = (a0, used)" by (cases r)
  have bf: "build_fixed rm pupils Map.empty [] = Inr (a0, used)"
    using Inr r by simp
  have a0: "a0 = Map.empty"
    using build_fixed_no_seats [OF assms(2) bf] by simp
  define rem where "rem = filter (\<lambda>p. \<not> obj_truthy a0 (pid p)) pupils"
  have "rem = pupils"
    using assms(3) by (simp add: rem_def a0 obj_truthy_def plain_ids_def list_all_iff)
  moreover have "length (filter has_tags rem) + length (filter (\<lambda>p. \<not> has_tags p) rem) = length rem"
    by (rule sum_length_filter_compl)
  ultimately have "length (map pid (filter has_tags rem)) + length (map pid (filter (\<lambda>p. \<not> has_tags p) rem)) > 0"
    using assms(1) by simp
  then show ?thesis
    using bf assms(2) unfolding buildInitialAssignment_def Let_def rem_def by simp
qed

text \<open>The builder has no test for an empty pupil list: it returns the empty assignment.\<close>

theorem builder_accepts_no_pupils:
  "length ([] :: pupil list) = 0 \<and> buildInitialAssignment sample_room [] 1 = Inr Map.empty"
  by (simp add: buildInitialAssignment_def Let_def)

text \<open>
  The builder tests the pupils it has not placed against the free seats, and it takes a
  pupil for placed when \<open>assign[p.id]\<close> is truthy. For a pupil whose id names an inherited
  property that is so from the start: the pupil gets no seat and is not counted, with no
  seat in the room and with more pupils than seats.
\<close>

lemma builder_skips_inherited_id:
  "buildInitialAssignment empty_room [pupilC] seed = Inr Map.empty \<and>
   buildInitialAssignment one_seat_room [pupilC, pupilA] seed = Inr [''A'' \<mapsto> ''S00_00'']"
  by (simp add: buildInitialAssignment_def Let_def empty_room_def one_seat_room_def allSeatIds_def
      pupilC_def pupilA_def obj_truthy_def inherited_key_def inherited_names_def has_tags_def
      shuffleInPlace_def array_sort_def)

text \<open>
  C7 (as amended). \<open>solve\<close> raises before anything else when there are no pupils, no
  seats, or more pupils than seats. The builder, for a pupil list with plain ids, raises
  when there is a pupil and no seat and, the ids being distinct, when the pupils are more
  than the seats; with no pupils it returns the empty assignment.
\<close>

theorem validation_failures:
  "(pupils = [] \<or> allSeatIds rm = [] \<or> length pupils > length (allSeatIds rm) \<longrightarrow>
      (\<exists>e. solve rm pupils rules acc restarts iters seed = Some (Inl e))) \<and>
   (plain_ids pupils \<and> pupils \<noteq> [] \<and> allSeatIds rm = [] \<longrightarrow>
      (\<exists>e. buildInitialAssignment rm pupils seed = Inl e)) \<and>
   (plain_ids pupils \<and> distinct (map pid pupils) \<and> length pupils > length (allSeatIds rm) \<longrightarrow>
      (\<exists>e. buildInitialAssignment rm pupils seed = Inl e)) \<and>
   buildInitialAssignment rm [] seed = Inr Map.empty"
proof (intro conjI impI)
  assume "pupils = [] \<or> allSeatIds rm = [] \<or> length pupils > length (allSeatIds rm)"
  then show "\<exists>e. solve rm pupils rules acc restarts iters seed = Some (Inl e)"
    by (auto simp: solve_def)
next
  assume "plain_ids pupils \<and> pupils \<noteq> [] \<and> allSeatIds rm = []"
  then show "\<exists>e. buildInitialAssignment rm pupils seed = Inl e"
    using buildInitialAssignment_no_seats by blast
next
  assume "plain_ids pupils \<and> distinct (map pid pupils) \<and> length pupils > length (allSeatIds rm)"
  then show "\<exists>e. buildInitialAssignment rm pupils seed = Inl e"
    using buildInitialAssignment_capacity by blast
next
  show "buildInitialAssignment rm [] seed = Inr Map.empty"
    by (simp add: buildInitialAssignment_def Let_def)
qed

theorem validation_failures_witness:
  "(\<exists>e. solve one_seat_room [pupilA, pupilB] [] (\<lambda>i d u. False) 5 10 1 = Some (Inl e)) \<and>
   (\<exists>e. solve one_seat_room [] [] (\<lambda>i d u. False) 5 10 1 = Some (Inl e)) \<and>
   (\<exists>e. solve empty_room [pupilA] [] (\<lambda>i d u. False) 5 10 1 = Some (Inl e)) \<and>
   plain_ids [pupilA, pupilB] \<and>
   (\<exists>e. buildInitialAssignment empty_room [pupilA] 1 = Inl e) \<and>
   (\<exists>e. buildInitialAssignment one_seat_room [pupilA, pupilB] 1 = Inl e)"
proof -
  have l: "allSeatIds one_seat_room = [''S00_00'']" "allSeatIds empty_room = []"
    by (simp_all add: allSeatIds_def one_seat_room_def empty_room_def)
  have d: "distinct (map pid [pupilA, pupilB])" "plain_ids [pupilA, pupilB]" "plain_ids [pupilA]"
    by (simp_all add: pupilA_def pupilB_def plain_ids_def inherited_key_def inherited_names_def)
  note v = validation_failures [of _ _ "[]" "\<lambda>i d u. False" 5 10 1]
  show ?thesis
    using v [of "[pupilA, pupilB]" one_seat_room] v [of "[]" one_seat_room]
      v [of "[pupilA]" empty_room] d
    by (simp add: l)
qed

subsection \<open>Which seats the repair routine retains\<close>

lemma repair_clean_append:
  "repair_clean sids fx a (xs @ ys) clean used =
     (case repair_clean sids fx a xs clean used of
        Inl e \<Rightarrow> Inl e
      | Inr (c1, u1) \<Rightarrow> repair_clean sids fx a ys c1 u1)"
  by (induction xs arbitrary: clean used) (auto simp: Let_def split: option.splits)





subsection \<open>The solver's moves\<close>

lemma pick_other_result_aux:
  "pick_other movable a g = Some r \<Longrightarrow> movable \<noteq> [] \<longrightarrow> fst r \<in> set movable \<and> fst r \<noteq> a"
proof (induction rule: pick_other.raw_induct [rotated 1, consumes 1])
  case (1 pick movable a g r)
  let ?d = "rng_next g"
  let ?b = "movable ! rand_index (fst ?d) (length movable)"
  show ?case
  proof
    assume ne: "movable \<noteq> []"
    have "rand_index (fst ?d) (length movable) < length movable"
      using ne by (intro rand_index_less) simp
    then have b: "?b \<in> set movable"
      by simp
    show "fst r \<in> set movable \<and> fst r \<noteq> a"
    proof (cases "?b = a")
      case True
      then have "pick movable a (snd ?d) = Some r"
        using 1(2) by (simp add: Let_def)
      then show ?thesis using 1(1) ne by blast
    next
      case False
      then have "r = (?b, snd ?d)"
        using 1(2) by (simp add: Let_def)
      then show ?thesis using b False by simp
    qed
  qed
qed

lemma pick_other_result:
  "pick_other movable a g = Some (b, g') \<Longrightarrow> movable \<noteq> [] \<Longrightarrow> b \<in> set movable \<and> b \<noteq> a"
  using pick_other_result_aux [of movable a g "(b, g')"] by simp


lemma swap_seats_inj:
  assumes "inj_on c (dom c)"
  shows "inj_on (swap_seats c a b) (dom (swap_seats c a b))"
proof (rule inj_onI)
  fix x y
  assume x: "x \<in> dom (swap_seats c a b)" and y: "y \<in> dom (swap_seats c a b)"
    and e: "swap_seats c a b x = swap_seats c a b y"
  define t where "t = (\<lambda>k. if k = b then a else if k = a then b else k)"
  have s: "swap_seats c a b k = c (t k)" for k
    by (simp add: swap_seats_def Let_def t_def)
  have "t x \<in> dom c" "t y \<in> dom c" "c (t x) = c (t y)"
    using x y e by (auto simp: s dom_def)
  then have "t x = t y"
    using assms by (auto dest: inj_onD)
  then show "x = y"
    by (auto simp: t_def split: if_splits)
qed




text \<open>What one iteration does to the current assignment.\<close>

lemma anneal_step_move:
  assumes "anneal_step rm pupils rules acc zb i st = Some (Inr (brk, st'))"
  shows "(cur st' = cur st \<or>
          (\<exists>a b. a \<in> set (movable_ids pupils) \<and> b \<in> set (movable_ids pupils) \<and> a \<noteq> b \<and>
                 cur st' = swap_seats (cur st) a b)) \<and>
         (best st' = best st \<or> best st' = cur st')"
proof (cases "length (movable_ids pupils) < 2")
  case True
  then show ?thesis using assms by (simp add: anneal_step_def Let_def)
next
  case False
  let ?m = "movable_ids pupils"
  let ?d = "rng_next (gen st)"
  let ?a = "?m ! rand_index (fst ?d) (length ?m)"
  have ne: "?m \<noteq> []" using False by auto
  have a: "?a \<in> set ?m"
    using ne by (simp add: rand_index_less)
  from assms False obtain b g2 where pk: "pick_other ?m ?a (snd ?d) = Some (b, g2)"
    by (auto simp: anneal_step_def Let_def split: option.splits)
  have b: "b \<in> set ?m" "b \<noteq> ?a"
    using pick_other_result [OF pk ne] by simp_all
  let ?next = "swap_seats (cur st) ?a b"
  from assms False pk obtain nextSc where sc: "scoreAssignment rm pupils rules ?next = Inr nextSc"
    by (auto simp: anneal_step_def Let_def split: sum.splits)
  have "cur st' = cur st \<and> best st' = best st \<or> cur st' = ?next \<and> (best st' = best st \<or> best st' = ?next)"
    using assms False pk sc
    by (auto simp: anneal_step_def Let_def split: if_splits)
  then consider (same) "cur st' = cur st" "best st' = best st"
    | (moved) "cur st' = ?next" "best st' = best st \<or> best st' = cur st'"
    by auto
  then show ?thesis
  proof cases
    case same
    then show ?thesis by simp
  next
    case moved
    have "\<exists>x y. x \<in> set ?m \<and> y \<in> set ?m \<and> x \<noteq> y \<and> cur st' = swap_seats (cur st) x y"
      using a b moved(1) by (intro exI [of _ ?a] exI [of _ b]) simp
    then show ?thesis using moved(2) by simp
  qed
qed

lemma anneal_step_preserves:
  assumes "anneal_step rm pupils rules acc zb i st = Some (Inr (brk, st'))"
    and "\<And>c a b. Q c \<Longrightarrow> a \<in> set (movable_ids pupils) \<Longrightarrow> b \<in> set (movable_ids pupils) \<Longrightarrow>
           a \<noteq> b \<Longrightarrow> Q (swap_seats c a b)"
    and "Q (cur st)" "Q (best st)"
  shows "Q (cur st') \<and> Q (best st')"
proof -
  note m = anneal_step_move [OF assms(1)]
  have c: "Q (cur st')"
  proof (cases "cur st' = cur st")
    case True
    then show ?thesis using assms(3) by simp
  next
    case False
    then obtain a b where "a \<in> set (movable_ids pupils)" "b \<in> set (movable_ids pupils)" "a \<noteq> b"
      "cur st' = swap_seats (cur st) a b"
      using m by blast
    then show ?thesis using assms(2) [OF assms(3)] by simp
  qed
  have "best st' = best st \<or> best st' = cur st'"
    using m by simp
  then show ?thesis using c assms(4) by auto
qed

lemma anneal_loop_preserves:
  assumes "anneal_loop rm pupils rules acc zb n i st = Some (Inr st')"
    and "\<And>c a b. Q c \<Longrightarrow> a \<in> set (movable_ids pupils) \<Longrightarrow> b \<in> set (movable_ids pupils) \<Longrightarrow>
           a \<noteq> b \<Longrightarrow> Q (swap_seats c a b)"
    and "Q (cur st)" "Q (best st)"
  shows "Q (cur st') \<and> Q (best st')"
  using assms(1,3,4)
proof (induction n arbitrary: i st)
  case 0
  then show ?case by simp
next
  case (Suc n)
  from Suc.prems(1) obtain brk st1 where
    s: "anneal_step rm pupils rules acc zb i st = Some (Inr (brk, st1))"
    and r: "if brk then st' = st1 else anneal_loop rm pupils rules acc zb n (Suc i) st1 = Some (Inr st')"
    by (auto split: option.splits sum.splits if_splits)
  have q: "Q (cur st1) \<and> Q (best st1)"
    using anneal_step_preserves [where Q = Q, OF s assms(2) Suc.prems(2,3)] by simp
  show ?case
  proof (cases brk)
    case True
    then show ?thesis using r q by simp
  next
    case False
    then show ?thesis using r q Suc.IH by simp
  qed
qed

lemma restarts_loop_preserves:
  assumes "restarts_loop rm pupils rules acc iters n mg res = Some (Inr res')"
    and "\<And>c a b. Q c \<Longrightarrow> a \<in> set (movable_ids pupils) \<Longrightarrow> b \<in> set (movable_ids pupils) \<Longrightarrow>
           a \<noteq> b \<Longrightarrow> Q (swap_seats c a b)"
    and "\<And>seed c. buildInitialAssignment rm pupils seed = Inr c \<Longrightarrow> Q c"
    and "\<forall>c. res_assignment res = Some c \<longrightarrow> Q c"
  shows "\<forall>c. res_assignment res' = Some c \<longrightarrow> Q c"
  using assms(1,4)
proof (induction n arbitrary: mg res)
  case 0
  then show ?case by simp
next
  case (Suc n)
  let ?d = "rng_next mg"
  let ?seed = "uint (restart_seed (fst ?d))"
  note run = Suc.prems(1) [unfolded restarts_loop.simps Let_def]
  show ?case
  proof (cases "buildInitialAssignment rm pupils ?seed")
    case (Inl e)
    then show ?thesis using run by simp
  next
    case b: (Inr c0)
    show ?thesis
    proof (cases "scoreAssignment rm pupils rules c0")
      case (Inl e)
      then show ?thesis using run b by simp
    next
      case sc: (Inr sc0)
      let ?st0 = "\<lparr>cur = c0, curSc = sc0, best = c0, bestSc = sc0, gen = mulberry32 ?seed\<rparr>"
      show ?thesis
      proof (cases "anneal_loop rm pupils rules acc True iters 0 ?st0")
        case None
        then show ?thesis using run b sc by simp
      next
        case (Some r)
        show ?thesis
        proof (cases r)
          case (Inl e)
          then show ?thesis using run b sc Some by simp
        next
          case (Inr st)
          have l: "anneal_loop rm pupils rules acc True iters 0 ?st0 = Some (Inr st)"
            using Some Inr by simp
          have "Q c0" using assms(3) b by blast
          then have "Q (best st)"
            using anneal_loop_preserves [where Q = Q, OF l assms(2)] by simp
          then have k: "\<forall>c. res_assignment (keep_best res st) = Some c \<longrightarrow> Q c"
            using Suc.prems(2) by (simp add: keep_best_def)
          show ?thesis
          proof (cases "bestScore (keep_best res st) = Some 0")
            case True
            then have "res' = keep_best res st"
              using run b sc l by simp
            then show ?thesis using k by simp
          next
            case False
            then have "restarts_loop rm pupils rules acc iters n (snd ?d) (keep_best res st) = Some (Inr res')"
              using run b sc l by simp
            then show ?thesis using k Suc.IH by blast
          qed
        qed
      qed
    qed
  qed
qed

lemma solve_preserves:
  assumes "solve rm pupils rules acc restarts iters seed = Some (Inr res)" "res_assignment res = Some c"
    and "\<And>c a b. Q c \<Longrightarrow> a \<in> set (movable_ids pupils) \<Longrightarrow> b \<in> set (movable_ids pupils) \<Longrightarrow>
           a \<noteq> b \<Longrightarrow> Q (swap_seats c a b)"
    and "\<And>seed c. buildInitialAssignment rm pupils seed = Inr c \<Longrightarrow> Q c"
  shows "Q c"
proof -
  from assms(1) have "restarts_loop rm pupils rules acc iters restarts (mulberry32 seed)
             \<lparr>res_assignment = None, bestScore = None, bestHard = None\<rparr> = Some (Inr res)"
    by (auto simp: solve_def split: if_splits)
  from restarts_loop_preserves [where Q = Q, OF this assms(3,4)] assms(2) show ?thesis
    by simp
qed

lemma quickImprove_preserves:
  assumes "quickImprove rm pupils rules stored acc iters seed = Some (Inr res)" "res_assignment res = Some c"
    and "\<And>c a b. Q c \<Longrightarrow> a \<in> set (movable_ids pupils) \<Longrightarrow> b \<in> set (movable_ids pupils) \<Longrightarrow>
           a \<noteq> b \<Longrightarrow> Q (swap_seats c a b)"
    and "\<And>a seed c. repairAssignment rm pupils a seed = Inr c \<Longrightarrow> Q c"
  shows "Q c"
proof -
  let ?start = "if stored \<noteq> [] then Inr (map_of stored) else buildInitialAssignment rm pupils seed"
  note run = assms(1) [unfolded quickImprove_def]
  show ?thesis
  proof (cases ?start)
    case (Inl e)
    then show ?thesis using run by simp
  next
    case s0: (Inr c0)
    show ?thesis
    proof (cases "repairAssignment rm pupils c0 seed")
      case (Inl e)
      then show ?thesis using run s0 by simp
    next
      case r: (Inr c1)
      show ?thesis
      proof (cases "scoreAssignment rm pupils rules c1")
        case (Inl e)
        then show ?thesis using run s0 r by simp
      next
        case sc: (Inr sc1)
        let ?st0 = "\<lparr>cur = c1, curSc = sc1, best = c1, bestSc = sc1, gen = mulberry32 seed\<rparr>"
        show ?thesis
        proof (cases "anneal_loop rm pupils rules acc False iters 0 ?st0")
          case None
          then show ?thesis using run s0 r sc by simp
        next
          case (Some x)
          show ?thesis
          proof (cases x)
            case (Inl e)
            then show ?thesis using run s0 r sc Some by simp
          next
            case (Inr st)
            have l: "anneal_loop rm pupils rules acc False iters 0 ?st0 = Some (Inr st)"
              using Some Inr by simp
            have e: "res = \<lparr>res_assignment = Some (best st), bestScore = Some (total (bestSc st)),
                   bestHard = Some (hardBreaks (bestSc st))\<rparr>"
              using run s0 r sc l by simp
            have "Q c1" using assms(4) r by blast
            then have "Q (best st)"
              using anneal_loop_preserves [where Q = Q, OF l assms(3)] by simp
            then show ?thesis using e assms(2) by simp
          qed
        qed
      qed
    qed
  qed
qed

lemma inj_assignment_iff:
  "inj_on a (dom a) \<longleftrightarrow> (\<forall>p q s. a p = Some s \<and> a q = Some s \<longrightarrow> p = q)"
proof
  assume i: "inj_on a (dom a)"
  show "\<forall>p q s. a p = Some s \<and> a q = Some s \<longrightarrow> p = q"
  proof (intro allI impI)
    fix p q s assume "a p = Some s \<and> a q = Some s"
    then have "p \<in> dom a" "q \<in> dom a" "a p = a q" by auto
    then show "p = q" using i by (auto dest: inj_onD)
  qed
next
  assume h: "\<forall>p q s. a p = Some s \<and> a q = Some s \<longrightarrow> p = q"
  show "inj_on a (dom a)"
  proof (rule inj_onI)
    fix x y assume "x \<in> dom a" "y \<in> dom a" "a x = a y"
    then obtain s where "a x = Some s" "a y = Some s" by auto
    then show "x = y" using h by blast
  qed
qed

text \<open>
  C5. When the seat identifiers of the room are distinct, every assignment returned by
  \<open>buildInitialAssignment\<close>, \<open>repairAssignment\<close>, \<open>solve\<close> or \<open>quickImprove\<close> is injective on
  the ids it assigns: no two pupils have the same seat identifier.
\<close>

theorem assignments_injective:
  assumes "distinct (allSeatIds rm)"
  shows "(buildInitialAssignment rm pupils seed = Inr a \<longrightarrow> inj_on a (dom a)) \<and>
         (repairAssignment rm pupils a0 seed = Inr a \<longrightarrow> inj_on a (dom a)) \<and>
         (solve rm pupils rules acc restarts iters seed = Some (Inr res) \<and> res_assignment res = Some a
            \<longrightarrow> inj_on a (dom a)) \<and>
         (quickImprove rm pupils rules stored acc iters seed = Some (Inr res) \<and> res_assignment res = Some a
            \<longrightarrow> inj_on a (dom a)) \<and>
         (inj_on a (dom a) \<longleftrightarrow> (\<forall>p q s. a p = Some s \<and> a q = Some s \<longrightarrow> p = q))"
proof (intro conjI impI)
  assume "buildInitialAssignment rm pupils seed = Inr a"
  then show "inj_on a (dom a)"
    using assms by (rule buildInitialAssignment_injective [rotated])
next
  assume "repairAssignment rm pupils a0 seed = Inr a"
  then show "inj_on a (dom a)"
    using assms by (rule repairAssignment_injective [rotated])
next
  assume s: "solve rm pupils rules acc restarts iters seed = Some (Inr res) \<and> res_assignment res = Some a"
  show "inj_on a (dom a)"
  proof (rule solve_preserves [where Q = "\<lambda>c. inj_on c (dom c)"])
    show "solve rm pupils rules acc restarts iters seed = Some (Inr res)" "res_assignment res = Some a"
      using s by simp_all
    show "inj_on (swap_seats c x y) (dom (swap_seats c x y))" if "inj_on c (dom c)" for c x y
      using that by (rule swap_seats_inj)
    show "inj_on c (dom c)" if "buildInitialAssignment rm pupils sd = Inr c" for sd c
      using assms that by (rule buildInitialAssignment_injective)
  qed
next
  assume s: "quickImprove rm pupils rules stored acc iters seed = Some (Inr res) \<and> res_assignment res = Some a"
  show "inj_on a (dom a)"
  proof (rule quickImprove_preserves [where Q = "\<lambda>c. inj_on c (dom c)"])
    show "quickImprove rm pupils rules stored acc iters seed = Some (Inr res)" "res_assignment res = Some a"
      using s by simp_all
    show "inj_on (swap_seats c x y) (dom (swap_seats c x y))" if "inj_on c (dom c)" for c x y
      using that by (rule swap_seats_inj)
    show "inj_on c (dom c)" if "repairAssignment rm pupils b sd = Inr c" for b sd c
      using assms that by (rule repairAssignment_injective)
  qed
next
  show "inj_on a (dom a) \<longleftrightarrow> (\<forall>p q s. a p = Some s \<and> a q = Some s \<longrightarrow> p = q)"
    by (rule inj_assignment_iff)
qed

text \<open>
  A run on the room with three seats in one row, the pupils \<open>A\<close>, \<open>B\<close> and the fixed pupil
  \<open>F\<close>, and the rule that wants \<open>A\<close> on \<open>S00_00\<close>. The draws of the generator are computed
  from its definition; \<open>solve\<close> is run with seed 1, whose first draw gives the restart
  seed 2693262066, and \<open>quickImprove\<close> with seed 7, where the choice of the second pupil
  takes two draws. In both runs the builder puts \<open>A\<close> on \<open>S00_01\<close> and \<open>B\<close> on \<open>S00_00\<close>, and
  the first iteration exchanges them and is accepted.
\<close>

lemma sample_draws_master: "rng_next (mulberry32 1) = (2693262067, 1831565814)"
  by code_simp

lemma sample_draws_restart:
  "rng_next 2693262066 = (3992691685, 229860583)"
  "rng_next 229860583 = (2125417710, 2061426396)"
  by code_simp+

lemma sample_draws_seed7:
  "rng_next (mulberry32 7) = (50271532, 1831565820)"
  "rng_next 1831565820 = (266108690, 3663131633)"
  "rng_next 3663131633 = (4195786334, 1199730150)"
  by code_simp+

lemma sample_indices:
  "rand_index 3992691685 (Suc (Suc 0)) = 1"
  "rand_index 2125417710 (Suc (Suc 0)) = 0"
  "rand_index 50271532 (Suc (Suc 0)) = 0"
  "rand_index 266108690 (Suc (Suc 0)) = 0"
  "rand_index 4195786334 (Suc (Suc 0)) = 1"
  by (simp_all add: rand_index_def)

lemma sample_restart_seed:
  "restart_seed 2693262067 = 2693262066"
  "mulberry32 (uint (2693262066 :: 32 word)) = 2693262066"
  "mulberry32 2693262066 = 2693262066"
  by (simp_all add: restart_seed_def mulberry32_def)

lemma sample_pick_first: "pick_other [''A'', ''B''] ''B'' 229860583 = Some (''A'', 2061426396)"
  by (subst pick_other.simps) (simp add: sample_draws_restart sample_indices Let_def)

lemma sample_pick_redraw: "pick_other [''A'', ''B''] ''A'' 1831565820 = Some (''B'', 1199730150)"
  by (subst pick_other.simps, simp add: sample_draws_seed7 sample_indices Let_def)
     (subst pick_other.simps, simp add: sample_draws_seed7 sample_indices Let_def)

lemma sample_pupil_facts:
  "pid pupilA = ''A''" "pid pupilB = ''B''" "pid pupilF = ''F''"
  "has_tags pupilA = False" "has_tags pupilB = False" "has_tags pupilF = False"
  by (simp_all add: pupilA_def pupilB_def pupilF_def has_tags_def)

lemma sample_seat_ids: "allSeatIds sample_room = [''S00_00'', ''S00_01'', ''S00_02'']"
  by (simp add: allSeatIds_def sample_room_def)

lemma sample_distinct: "distinct (allSeatIds sample_room)" "[] \<notin> set (allSeatIds sample_room)"
  by (simp_all add: sample_seat_ids)

lemma sample_fixed_placed:
  "build_fixed sample_room [pupilA, pupilB, pupilF] Map.empty [] =
     Inr ([''F'' \<mapsto> ''S00_02''], [''S00_02''])"
  by (simp add: sample_room_def pupilA_def pupilB_def pupilF_def truthy_def rcToSeatId_def
      map_has_def keyRC_def set_add_def Let_def)

lemma sample_shuffles:
  "shuffleInPlace [''S00_00'', ''S00_01''] 2693262066 = ([''S00_00'', ''S00_01''], 229860583)"
  "shuffleInPlace [''S00_00'', ''S00_01''] 229860583 = ([''S00_01'', ''S00_00''], 2061426396)"
  "shuffleInPlace [''S00_00'', ''S00_01''] (mulberry32 7) = ([''S00_01'', ''S00_00''], 1831565820)"
  "shuffleInPlace [''S00_00'', ''S00_01''] 1831565820 = ([''S00_01'', ''S00_00''], 3663131633)"
  by (simp_all add: shuffleInPlace_def sample_draws_restart sample_draws_seed7 sample_indices Let_def)

lemma sample_sorted:
  "array_sort seat_cmp [''S00_00'', ''S00_01''] = [''S00_00'', ''S00_01'']"
  "array_sort seat_cmp [''S00_01'', ''S00_00''] = [''S00_00'', ''S00_01'']"
  by (simp_all add: array_sort_def seat_cmp_def is_digit_def parseInt10_def digit_val_def)

lemma sample_row_shuffles:
  "row_shuffle [''S00_00'', ''S00_01''] 229860583 = ([''S00_01'', ''S00_00''], 2061426396)"
  "row_shuffle [''S00_00'', ''S00_01''] 1831565820 = ([''S00_01'', ''S00_00''], 3663131633)"
  by (simp_all add: same_row_def sample_shuffles Let_def is_digit_def parseInt10_def digit_val_def)

lemma sample_build_restart:
  "buildInitialAssignment sample_room [pupilA, pupilB, pupilF] 2693262066 = Inr assignBAF"
  unfolding buildInitialAssignment_def sample_fixed_placed
  by (simp add: sample_seat_ids sample_restart_seed sample_shuffles sample_sorted sample_row_shuffles
      Let_def sample_pupil_facts obj_truthy_def inherited_key_def inherited_names_def assignBAF_def
      fun_eq_iff del: row_shuffle.simps)

lemma sample_build_seed7:
  "buildInitialAssignment sample_room [pupilA, pupilB, pupilF] 7 = Inr assignBAF"
  unfolding buildInitialAssignment_def sample_fixed_placed
  by (simp add: sample_seat_ids sample_shuffles sample_sorted sample_row_shuffles
      Let_def sample_pupil_facts obj_truthy_def inherited_key_def inherited_names_def assignBAF_def
      fun_eq_iff del: row_shuffle.simps)

lemma sample_repair_fixed_map:
  "repair_fixed sample_room [pupilA, pupilB, pupilF] Map.empty = Inr [''F'' \<mapsto> ''S00_02'']"
  by (simp add: sample_room_def pupilA_def pupilB_def pupilF_def truthy_def map_has_def keyRC_def)

lemma sample_repair_keeps:
  "repairAssignment sample_room [pupilA, pupilB, pupilF] assignBAF sd = Inr assignBAF"
  unfolding repairAssignment_def sample_repair_fixed_map
  by (simp add: sample_seat_ids sample_pupil_facts assignBAF_def truthy_def obj_truthy_def set_add_def
      shuffleInPlace_def Let_def fun_eq_iff)

lemma sample_repair_restores:
  "repairAssignment sample_room [pupilA, pupilB, pupilF] assign_clash sd = Inr assignABF"
  unfolding repairAssignment_def sample_repair_fixed_map
  by (simp add: sample_seat_ids sample_pupil_facts assign_clash_def assignABF_def truthy_def
      obj_truthy_def inherited_key_def inherited_names_def set_add_def shuffleInPlace_def Let_def
      fun_eq_iff)

lemma sample_movable: "movable_ids [pupilA, pupilB, pupilF] = [''A'', ''B'']"
  by (simp add: movable_ids_def fixedSet_def isFixedPupil_def pupilA_def pupilB_def pupilF_def)

lemma sample_swap:
  "swap_seats assignBAF ''B'' ''A'' = assignABF"
  "swap_seats assignBAF ''A'' ''B'' = assignABF"
  by (auto simp: swap_seats_def assignBAF_def assignABF_def fun_eq_iff Let_def)

lemma sample_assign_values:
  "assignABF \<noteq> assignBAF"
  "assignABF ''A'' = Some ''S00_00''" "assignABF ''B'' = Some ''S00_01''" "assignABF ''F'' = Some ''S00_02''"
  "assignBAF ''A'' = Some ''S00_01''" "assignBAF ''B'' = Some ''S00_00''" "assignBAF ''F'' = Some ''S00_02''"
       apply (simp_all add: assignABF_def assignBAF_def fun_eq_iff)
  by (rule exI [of _ "''A''"]) simp

lemma sample_pen_seat:
  "rulePenalty rule_seatA assignBAF byId tt = Inr 1"
  "rulePenalty rule_seatA assignABF byId tt = Inr 0"
  by (simp_all add: rulePenalty_def rawPenalty_def rule_seatA_def blank_rule_def assignBAF_def
      assignABF_def obj_truthy_def or0_def)

lemma sample_score_seat:
  "scoreAssignment sample_room ps [rule_seatA] assignBAF = Inr \<lparr>total = 1, hardBreaks = 0\<rparr>"
  "scoreAssignment sample_room ps [rule_seatA] assignABF = Inr \<lparr>total = 0, hardBreaks = 0\<rparr>"
  by (simp_all add: scoreAssignment_def sample_pen_seat HARD_MULT_def)

lemma sample_step_restart:
  "anneal_step sample_room [pupilA, pupilB, pupilF] [rule_seatA] acc zb i
     \<lparr>cur = assignBAF, curSc = \<lparr>total = 1, hardBreaks = 0\<rparr>, best = assignBAF,
      bestSc = \<lparr>total = 1, hardBreaks = 0\<rparr>, gen = 2693262066\<rparr> =
   Some (Inr (zb,
     \<lparr>cur = assignABF, curSc = \<lparr>total = 0, hardBreaks = 0\<rparr>, best = assignABF,
      bestSc = \<lparr>total = 0, hardBreaks = 0\<rparr>, gen = 2061426396\<rparr>))"
  by (simp add: anneal_step_def sample_movable sample_draws_restart sample_indices sample_pick_first
      sample_swap sample_score_seat Let_def)

lemma sample_step_seed7:
  "anneal_step sample_room [pupilA, pupilB, pupilF] [rule_seatA] acc zb i
     \<lparr>cur = assignBAF, curSc = \<lparr>total = 1, hardBreaks = 0\<rparr>, best = assignBAF,
      bestSc = \<lparr>total = 1, hardBreaks = 0\<rparr>, gen = mulberry32 7\<rparr> =
   Some (Inr (zb,
     \<lparr>cur = assignABF, curSc = \<lparr>total = 0, hardBreaks = 0\<rparr>, best = assignABF,
      bestSc = \<lparr>total = 0, hardBreaks = 0\<rparr>, gen = 1199730150\<rparr>))"
  by (simp add: anneal_step_def sample_movable sample_draws_seed7 sample_indices sample_pick_redraw
      sample_swap sample_score_seat Let_def)

lemma sample_solve:
  "solve sample_room [pupilA, pupilB, pupilF] [rule_seatA] acc (Suc 0) (Suc 0) 1 =
     Some (Inr \<lparr>res_assignment = Some assignABF, bestScore = Some 0, bestHard = Some 0\<rparr>)"
  by (simp add: solve_def sample_seat_ids sample_draws_master sample_restart_seed sample_build_restart
      sample_score_seat sample_step_restart keep_best_def Let_def)

lemma sample_quick:
  "quickImprove sample_room [pupilA, pupilB, pupilF] [rule_seatA] [] acc (Suc 0) 7 =
     Some (Inr \<lparr>res_assignment = Some assignABF, bestScore = Some 0, bestHard = Some 0\<rparr>)"
  by (simp add: quickImprove_def sample_build_seed7 sample_repair_keeps sample_score_seat
      sample_step_seed7 Let_def)

theorem assignments_injective_witness:
  "distinct (allSeatIds sample_room) \<and>
   movable_ids [pupilA, pupilB, pupilF] = [''A'', ''B''] \<and>
   buildInitialAssignment sample_room [pupilA, pupilB, pupilF] 7 = Inr assignBAF \<and>
   inj_on assignBAF (dom assignBAF) \<and>
   \<not> inj_on assign_clash (dom assign_clash) \<and>
   repairAssignment sample_room [pupilA, pupilB, pupilF] assign_clash 7 = Inr assignABF \<and>
   solve sample_room [pupilA, pupilB, pupilF] [rule_seatA] (\<lambda>i d u. False) (Suc 0) (Suc 0) 1 =
     Some (Inr \<lparr>res_assignment = Some assignABF, bestScore = Some 0, bestHard = Some 0\<rparr>) \<and>
   quickImprove sample_room [pupilA, pupilB, pupilF] [rule_seatA] [] (\<lambda>i d u. False) (Suc 0) 7 =
     Some (Inr \<lparr>res_assignment = Some assignABF, bestScore = Some 0, bestHard = Some 0\<rparr>) \<and>
   assignABF = swap_seats assignBAF ''A'' ''B'' \<and> assignABF \<noteq> assignBAF \<and>
   inj_on assignABF (dom assignABF) \<and>
   assignABF ''A'' = Some ''S00_00'' \<and> assignABF ''B'' = Some ''S00_01'' \<and>
   assignABF ''F'' = Some ''S00_02''"
proof -
  let ?ps = "[pupilA, pupilB, pupilF]"
  let ?res = "\<lparr>res_assignment = Some assignABF, bestScore = Some 0, bestHard = Some 0\<rparr>"
  note t = assignments_injective [OF sample_distinct(1)]
  have 1: "inj_on assignBAF (dom assignBAF)"
    by (rule t [THEN conjunct1, THEN mp, OF sample_build_seed7])
  have s: "solve sample_room ?ps [rule_seatA] (\<lambda>i d u. False) (Suc 0) (Suc 0) 1 = Some (Inr ?res) \<and>
           res_assignment ?res = Some assignABF"
    by (simp add: sample_solve)
  have 2: "inj_on assignABF (dom assignABF)"
    by (rule t [THEN conjunct2, THEN conjunct2, THEN conjunct1, THEN mp, OF s])
  have 3: "\<not> inj_on assign_clash (dom assign_clash)"
    using t [where a = assign_clash] by (simp add: assign_clash_def)
  show ?thesis
    by (intro conjI) (rule 1 2 3 sample_distinct(1) sample_movable sample_build_seed7
        sample_repair_restores sample_solve sample_quick sample_swap(2) [symmetric]
        sample_assign_values)+
qed




subsection \<open>Rooms built by the classify operations\<close>

lemma set_map_set: "set (map_set k v es) \<subseteq> insert (k, v) (set es)"
  by (induction es) auto

lemma fst_map_set: "fst ` set (map_set k v es) = insert k (fst ` set es)"
  by (induction es) auto

lemma distinct_map_set: "distinct (map fst es) \<Longrightarrow> distinct (map fst (map_set k v es))"
proof (induction es)
  case Nil
  then show ?case by simp
next
  case (Cons e es)
  then show ?case
    using fst_map_set [of k v es] by (auto simp: image_iff)
qed

lemma room_wf_empty: "room_wf empty_room"
  by (simp add: room_wf_def empty_room_def)

lemma room_wf_ensureSeat:
  assumes "room_wf rm" "0 \<le> r" "r \<le> 99" "0 \<le> c" "c \<le> 99"
  shows "room_wf (ensureSeat rm r c)"
proof -
  have s: "seats (ensureSeat rm r c) = map_set (keyRC r c) (seatIdFor r c) (seats rm)"
    by (simp add: ensureSeat_def Let_def)
  have "seat_entry_ok (keyRC r c, seatIdFor r c)"
    using assms(2-5) by (simp add: seat_entry_ok_def keyRC_def)
  then have "list_all seat_entry_ok (map_set (keyRC r c) (seatIdFor r c) (seats rm))"
    using assms(1) set_map_set [of "keyRC r c" "seatIdFor r c" "seats rm"]
    by (auto simp: room_wf_def list_all_iff)
  then show ?thesis
    using assms(1) by (simp add: room_wf_def s distinct_map_set)
qed

lemma room_wf_map_delete:
  "distinct (map fst es) \<and> list_all seat_entry_ok es \<Longrightarrow>
   distinct (map fst (map_delete k es)) \<and> list_all seat_entry_ok (map_delete k es)"
  by (auto simp: map_delete_def list_all_iff distinct_map_filter)

lemma room_wf_ensureBlocked: "room_wf rm \<Longrightarrow> room_wf (ensureBlocked rm r c)"
  using room_wf_map_delete [of "seats rm" "keyRC r c"]
  by (simp add: room_wf_def ensureBlocked_def Let_def)

lemma room_wf_ensureEmpty: "room_wf rm \<Longrightarrow> room_wf (ensureEmpty rm r c)"
  using room_wf_map_delete [of "seats rm" "keyRC r c"]
  by (simp add: room_wf_def ensureEmpty_def Let_def)

lemma room_wf_ensureTeacher: "room_wf rm \<Longrightarrow> room_wf (ensureTeacher rm r c)"
  by (simp add: room_wf_def ensureTeacher_def Let_def)

lemma seat_entry_ok_inj:
  assumes "seat_entry_ok e1" "seat_entry_ok e2" "snd e1 = snd e2"
  shows "e1 = e2"
proof -
  have "seatPosById (snd e1) = Some \<lparr>pos_r = fst (fst e1), pos_c = snd (fst e1)\<rparr>"
    using assms(1) by (simp add: seat_entry_ok_def seatPosById_seatIdFor)
  moreover have "seatPosById (snd e2) = Some \<lparr>pos_r = fst (fst e2), pos_c = snd (fst e2)\<rparr>"
    using assms(2) by (simp add: seat_entry_ok_def seatPosById_seatIdFor)
  ultimately have "fst e1 = fst e2"
    using assms(3) by (simp add: prod_eq_iff)
  then show ?thesis
    using assms(3) by (simp add: prod_eq_iff)
qed

lemma room_wf_seat_ids:
  assumes "room_wf rm"
  shows "distinct (allSeatIds rm) \<and> [] \<notin> set (allSeatIds rm)"
proof
  have d: "distinct (seats rm)"
    using assms by (simp add: room_wf_def distinct_map)
  have ok: "seat_entry_ok e" if "e \<in> set (seats rm)" for e
    using assms that by (simp add: room_wf_def list_all_iff)
  have "inj_on snd (set (seats rm))"
  proof (rule inj_onI)
    fix e1 e2
    assume "e1 \<in> set (seats rm)" "e2 \<in> set (seats rm)" "snd e1 = snd e2"
    then show "e1 = e2"
      using ok seat_entry_ok_inj by blast
  qed
  then show "distinct (allSeatIds rm)"
    using d by (simp add: allSeatIds_def distinct_map)
  have "snd e \<noteq> []" if "e \<in> set (seats rm)" for e
  proof -
    have "seat_entry_ok e" using assms that by (simp add: room_wf_def list_all_iff)
    then show ?thesis by (simp add: seat_entry_ok_def seatIdFor_def)
  qed
  then show "[] \<notin> set (allSeatIds rm)"
    unfolding allSeatIds_def by (metis (no_types, lifting) imageE list.set_map)
qed

subsection \<open>The failure conditions that the builder and the repair routine share\<close>

lemma build_fixed_append:
  "build_fixed rm (xs @ ys) a used =
     (case build_fixed rm xs a used of
        Inl e \<Rightarrow> Inl e
      | Inr (a1, u1) \<Rightarrow> build_fixed rm ys a1 u1)"
  by (induction xs arbitrary: a used) (auto simp: Let_def split: option.splits sum.splits)

lemma repair_fixed_append:
  "repair_fixed rm (xs @ ys) fx =
     (case repair_fixed rm xs fx of
        Inl e \<Rightarrow> Inl e
      | Inr fx1 \<Rightarrow> repair_fixed rm ys fx1)"
  by (induction xs arbitrary: fx) (auto simp: Let_def split: option.splits)

text \<open>A pupil fixed to a coordinate that is not a seat makes both routines fail.\<close>

lemma fixed_coordinate_not_seat_fails:
  assumes "p \<in> set pupils" "fixed p = Some f" "\<not> truthy (fixed_seat f)"
    and "fixed_r f \<noteq> None" "fixed_c f \<noteq> None"
    and "\<not> map_has (keyRC (the (fixed_r f)) (the (fixed_c f))) (seats rm)"
  shows "(\<exists>e. buildInitialAssignment rm pupils seed = Inl e) \<and>
         (\<exists>e. repairAssignment rm pupils a seed = Inl e)"
proof -
  from assms(1) obtain xs ys where sp: "pupils = xs @ p # ys"
    by (auto dest: split_list)
  have "\<exists>e. build_fixed rm (p # ys) a1 u1 = Inl e" for a1 u1
    using assms(2-6) by (simp add: rcToSeatId_def Let_def)
  then have "\<exists>e. build_fixed rm pupils Map.empty [] = Inl e"
    unfolding sp build_fixed_append
    by (cases "build_fixed rm xs Map.empty []") auto
  then have b: "\<exists>e. buildInitialAssignment rm pupils seed = Inl e"
    by (auto simp: buildInitialAssignment_def)
  have "\<exists>e. repair_fixed rm (p # ys) fx1 = Inl e" for fx1
    using assms(2-6) by (simp add: Let_def)
  then have "\<exists>e. repair_fixed rm pupils Map.empty = Inl e"
    unfolding sp repair_fixed_append
    by (cases "repair_fixed rm xs Map.empty") auto
  then have "\<exists>e. repairAssignment rm pupils a seed = Inl e"
    by (auto simp: repairAssignment_def)
  then show ?thesis using b by simp
qed

text \<open>Two fixed pupils that resolve to the same seat make both routines fail.\<close>

lemma build_fixed_resolved_step:
  assumes "resolved_seat rm q = Some s" "s \<in> set used"
  shows "\<exists>e. build_fixed rm (q # ys) a used = Inl e"
proof -
  from assms(1) obtain f where f: "fixed q = Some f"
    by (auto simp: resolved_seat_def split: option.splits)
  show ?thesis
  proof (cases "truthy (fixed_seat f)")
    case True
    then have "the (fixed_seat f) = s"
      using assms(1) f by (auto simp: resolved_seat_def)
    then show ?thesis
      using f True assms(2) by (simp add: Let_def)
  next
    case False
    then have rc: "fixed_r f \<noteq> None \<and> fixed_c f \<noteq> None"
      and m: "map_of (seats rm) (keyRC (the (fixed_r f)) (the (fixed_c f))) = Some s"
      using assms(1) f by (auto simp: resolved_seat_def split: if_splits)
    then have "rcToSeatId rm (the (fixed_r f)) (the (fixed_c f)) = Inr s"
      by (simp add: rcToSeatId_def map_has_map_of)
    then show ?thesis
      using f False rc assms(2) by simp
  qed
qed

lemma same_fixed_seat_fails:
  assumes "distinct (map pid pupils)" "pupils = xs @ q # ys" "p \<in> set xs"
    and "resolved_seat rm p = Some s" "resolved_seat rm q = Some s"
  shows "(\<exists>e. buildInitialAssignment rm pupils seed = Inl e) \<and>
         (\<exists>e. repairAssignment rm pupils a seed = Inl e)"
proof
  show "\<exists>e. buildInitialAssignment rm pupils seed = Inl e"
  proof (cases "build_fixed rm xs Map.empty []")
    case (Inl e)
    then show ?thesis
      by (simp add: buildInitialAssignment_def assms(2) build_fixed_append)
  next
    case (Inr r)
    obtain a1 u1 where r: "r = (a1, u1)" by (cases r)
    have b1: "build_fixed rm xs Map.empty [] = Inr (a1, u1)"
      using Inr r by simp
    have "distinct (map pid xs)" using assms(1,2) by simp
    then have "a1 (pid p) = Some s"
      using build_fixed_places [OF b1] assms(3,4) by blast
    moreover have "ran a1 \<subseteq> set u1"
      using build_fixed_inj [OF b1] by simp
    ultimately have "s \<in> set u1"
      by (auto simp: ran_def)
    from build_fixed_resolved_step [OF assms(5) this, of ys a1] show ?thesis
      by (auto simp: buildInitialAssignment_def assms(2) build_fixed_append b1)
  qed
next
  show "\<exists>e. repairAssignment rm pupils a seed = Inl e"
  proof (cases "repairAssignment rm pupils a seed")
    case (Inl e)
    then show ?thesis by simp
  next
    case (Inr c)
    then obtain fx clean used where
      rx: "repair_fixed rm pupils Map.empty = Inr fx"
      and rc: "repair_clean (allSeatIds rm) fx a (xs @ q # ys) Map.empty [] = Inr (clean, used)"
      by (auto simp: repairAssignment_def Let_def assms(2) split: sum.splits)
    have pq: "p \<in> set pupils" "q \<in> set pupils"
      using assms(2,3) by simp_all
    have fp: "fx (pid p) = Some s" and fq: "fx (pid q) = Some s"
      using repair_fixed_resolved [OF rx assms(1)] pq assms(4,5) by simp_all
    from rc obtain c1 u1 where
      r1: "repair_clean (allSeatIds rm) fx a xs Map.empty [] = Inr (c1, u1)"
      and r2: "repair_clean (allSeatIds rm) fx a (q # ys) c1 u1 = Inr (clean, used)"
      unfolding repair_clean_append by (auto split: sum.splits)
    have "distinct (map pid xs)" using assms(1,2) by simp
    from repair_clean_facts [OF r1 this] have "c1 (pid p) = Some s" "s \<in> set u1"
      using assms(3) fp by auto
    moreover have "s \<notin> set u1"
      using r2 fq by (cases rule: repair_clean_step) simp_all
    ultimately show ?thesis by simp
  qed
qed

end
